theory Spec2Isabelle
  imports Main "HOL-Library.Word"
begin

unbundle bit_operations_syntax

section \<open>Python values and faults\<close>

text \<open>
  The exception classes that the modelled code raises. \<open>FormatError\<close> is
  \<open>Deserializer.FormatError\<close>; the others are the built-in classes of the same name.
  \<open>OtherError\<close> stands for any other exception a generated adapter may raise.
\<close>

datatype error =
    FormatError
  | IndexError
  | TypeError
  | AttributeError
  | AssertionError
  | ValueError
  | NotImplementedError
  | OverflowError
  | OtherError string

type_synonym byte = "8 word"

text \<open>
  Indexing a one-dimensional numpy array (or a Python sequence) with an integer:
  a negative index counts from the end, anything outside \<open>[-n, n)\<close> raises IndexError.
\<close>

definition py_index :: "'a list \<Rightarrow> int \<Rightarrow> error + 'a" where
  "py_index xs i =
     (if 0 \<le> i \<and> i < int (length xs) then Inr (xs ! nat i)
      else if i < 0 \<and> - int (length xs) \<le> i then Inr (xs ! nat (int (length xs) + i))
      else Inl IndexError)"

text \<open>
  The slice \<open>xs[lo:hi]\<close>: each bound is first normalised (a negative bound counts from
  the end, and the result is clipped to \<open>[0, n]\<close>); slicing never raises.
\<close>

definition slice_bound :: "nat \<Rightarrow> int \<Rightarrow> nat" where
  "slice_bound n i = (if i < 0 then nat (int n + i) else min n (nat i))"

definition py_slice :: "'a list \<Rightarrow> int \<Rightarrow> int \<Rightarrow> 'a list" where
  "py_slice xs lo hi =
     take (slice_bound (length xs) hi - slice_bound (length xs) lo)
          (drop (slice_bound (length xs) lo) xs)"

text \<open>\<open>numpy.unpackbits\<close>: every byte becomes eight bits, most significant first.\<close>

definition unpackbits :: "byte list \<Rightarrow> bool list" where
  "unpackbits bs = concat (map (\<lambda>b. map (bit b) [7, 6, 5, 4, 3, 2, 1, 0]) bs)"

section \<open>The deserializer (\<open>_deserializer.py\<close>)\<close>

record deserializer =
  buf :: "byte list"
  buf_bit_length :: int
  bit_offset :: int

text \<open>
  A method of \<open>Deserializer\<close> either returns a value or raises; in both cases the
  object keeps whatever the method did to the cursor before it stopped.
\<close>

type_synonym 'a result = "(error + 'a) \<times> deserializer"

definition Deserializer_new :: "byte list \<Rightarrow> deserializer" where
  "Deserializer_new source_bytes =
     \<lparr>buf = source_bytes, buf_bit_length = int (length source_bytes) * 8, bit_offset = 0\<rparr>"

definition consumed_bit_length :: "deserializer \<Rightarrow> int" where
  "consumed_bit_length d = bit_offset d"

definition remaining_bit_length :: "deserializer \<Rightarrow> int" where
  "remaining_bit_length d = buf_bit_length d - bit_offset d"

definition byte_offset :: "deserializer \<Rightarrow> int" where
  "byte_offset d = bit_offset d div 8"

definition advance :: "int \<Rightarrow> deserializer \<Rightarrow> deserializer" where
  "advance n d = d\<lparr>bit_offset := bit_offset d + n\<rparr>"

definition require_remaining_bit_length :: "int \<Rightarrow> deserializer \<Rightarrow> unit result" where
  "require_remaining_bit_length inclusive_minimum d =
     (if remaining_bit_length d < inclusive_minimum then
        (if consumed_bit_length d + remaining_bit_length d = buf_bit_length d
         then (Inl FormatError, d) else (Inl AssertionError, d))
      else (Inr (), d))"

definition skip_bits :: "int \<Rightarrow> deserializer \<Rightarrow> unit result" where
  "skip_bits bit_length d =
     (if remaining_bit_length d \<ge> bit_length then (Inr (), advance bit_length d)
      else (Inl IndexError, d))"

text \<open>
  The cursor of a deserializer made by \<open>Deserializer_new\<close> and driven only forward
  stays inside the buffer, whose bit length is eight times its byte length.
\<close>

definition wf :: "deserializer \<Rightarrow> bool" where
  "wf d \<longleftrightarrow> buf_bit_length d = int (length (buf d)) * 8 \<and> 0 \<le> bit_offset d
            \<and> bit_offset d \<le> buf_bit_length d"

subsection \<open>Sequencing of methods that may raise\<close>

definition return :: "'a \<Rightarrow> deserializer \<Rightarrow> 'a result" where
  "return x d = (Inr x, d)"

definition raise :: "error \<Rightarrow> deserializer \<Rightarrow> 'a result" where
  "raise e d = (Inl e, d)"

text \<open>Run \<open>m\<close>; if it raised, stop there, otherwise go on with its value.\<close>

definition and_then ::
  "(deserializer \<Rightarrow> 'a result) \<Rightarrow> ('a \<Rightarrow> deserializer \<Rightarrow> 'b result) \<Rightarrow> deserializer \<Rightarrow> 'b result"
where
  "and_then m f d = (case m d of (Inl e, d') \<Rightarrow> (Inl e, d') | (Inr x, d') \<Rightarrow> f x d')"

text \<open>The statement \<open>self._bit_offset += n\<close>.\<close>

definition add_bit_offset :: "int \<Rightarrow> deserializer \<Rightarrow> unit result" where
  "add_bit_offset n d = (Inr (), advance n d)"

text \<open>A Python \<open>assert\<close> statement.\<close>

definition assert :: "bool \<Rightarrow> deserializer \<Rightarrow> unit result" where
  "assert b d = (if b then (Inr (), d) else (Inl AssertionError, d))"

subsection \<open>Aligned reads of standard width\<close>

definition fetch_aligned_array_of_bits :: "int \<Rightarrow> deserializer \<Rightarrow> bool list result" where
  "fetch_aligned_array_of_bits count d =
     (if bit_offset d mod 8 \<noteq> 0 then (Inl AssertionError, d)
      else
        let bs = py_slice (buf d) (byte_offset d) (byte_offset d + (count + 7) div 8);
            out = py_slice (unpackbits bs) 0 count
        in if int (length out) \<noteq> count then (Inl IndexError, d)
           else (Inr out, advance count d))"

definition fetch_aligned_bytes :: "int \<Rightarrow> deserializer \<Rightarrow> byte list result" where
  "fetch_aligned_bytes count d =
     (if bit_offset d mod 8 \<noteq> 0 then (Inl AssertionError, d)
      else
        let out = py_slice (buf d) (byte_offset d) (byte_offset d + count)
        in if int (length out) \<noteq> count then (Inl IndexError, d)
           else (Inr out, advance (count * 8) d))"

definition fetch_aligned_u8 :: "deserializer \<Rightarrow> int result" where
  "fetch_aligned_u8 d =
     (if bit_offset d mod 8 \<noteq> 0 then (Inl AssertionError, d)
      else case py_index (buf d) (byte_offset d) of
             Inl e \<Rightarrow> (Inl e, d)
           | Inr out \<Rightarrow> (Inr (uint out), advance 8 d))"

definition fetch_aligned_u16 :: "deserializer \<Rightarrow> int result" where
  "fetch_aligned_u16 =
     and_then fetch_aligned_u8 (\<lambda>out.
     and_then fetch_aligned_u8 (\<lambda>hi.
     return (out OR push_bit 8 hi)))"

definition fetch_aligned_u32 :: "deserializer \<Rightarrow> int result" where
  "fetch_aligned_u32 =
     and_then fetch_aligned_u16 (\<lambda>out.
     and_then fetch_aligned_u16 (\<lambda>hi.
     return (out OR push_bit 16 hi)))"

definition fetch_aligned_u64 :: "deserializer \<Rightarrow> int result" where
  "fetch_aligned_u64 =
     and_then fetch_aligned_u32 (\<lambda>out.
     and_then fetch_aligned_u32 (\<lambda>hi.
     return (out OR push_bit 32 hi)))"

definition fetch_aligned_i8 :: "deserializer \<Rightarrow> int result" where
  "fetch_aligned_i8 =
     and_then fetch_aligned_u8 (\<lambda>x. return (if x \<ge> 128 then x - 256 else x))"

definition fetch_aligned_i16 :: "deserializer \<Rightarrow> int result" where
  "fetch_aligned_i16 =
     and_then fetch_aligned_u16 (\<lambda>x. return (if x \<ge> 32768 then x - 65536 else x))"

definition fetch_aligned_i32 :: "deserializer \<Rightarrow> int result" where
  "fetch_aligned_i32 =
     and_then fetch_aligned_u32 (\<lambda>x. return (if x \<ge> 2 ^ 31 then x - 2 ^ 32 else x))"

definition fetch_aligned_i64 :: "deserializer \<Rightarrow> int result" where
  "fetch_aligned_i64 =
     and_then fetch_aligned_u64 (\<lambda>x. return (if x \<ge> 2 ^ 63 then x - 2 ^ 64 else x))"

text \<open>
  The floating-point reads hand the fetched bytes to \<open>struct.unpack\<close>, which accepts
  every byte string of the right length; it is the parameter \<open>unpack\<close> here.
\<close>

definition fetch_aligned_f16 :: "(byte list \<Rightarrow> 'f) \<Rightarrow> deserializer \<Rightarrow> 'f result" where
  "fetch_aligned_f16 unpack = and_then (fetch_aligned_bytes 2) (\<lambda>bs. return (unpack bs))"

definition fetch_aligned_f32 :: "(byte list \<Rightarrow> 'f) \<Rightarrow> deserializer \<Rightarrow> 'f result" where
  "fetch_aligned_f32 unpack = and_then (fetch_aligned_bytes 4) (\<lambda>bs. return (unpack bs))"

definition fetch_aligned_f64 :: "(byte list \<Rightarrow> 'f) \<Rightarrow> deserializer \<Rightarrow> 'f result" where
  "fetch_aligned_f64 unpack = and_then (fetch_aligned_bytes 8) (\<lambda>bs. return (unpack bs))"

subsection \<open>Aligned reads of any width\<close>

text \<open>
  \<open>_unsigned_from_bytes\<close>. The indices read are below \<open>num_bytes\<close>, which the third
  assertion has bounded by the length of \<open>x\<close>.
\<close>

definition unsigned_from_bytes :: "byte list \<Rightarrow> int \<Rightarrow> error + int" where
  "unsigned_from_bytes x bit_length =
     (if \<not> bit_length \<ge> 1 then Inl AssertionError
      else
        let num_bytes = (bit_length + 7) div 8 in
        if \<not> num_bytes > 0 then Inl AssertionError
        else
          let last_byte_index = nat (num_bytes - 1) in
          if \<not> int (length x) \<ge> num_bytes then Inl AssertionError
          else
            let out0 = fold (\<lambda>i out. out OR push_bit (i * 8) (uint (x ! i)))
                         [0..<last_byte_index] 0;
                shift = nat ((8 - bit_length mod 8) AND 7);
                out = out0 OR push_bit (last_byte_index * 8)
                                (drop_bit shift (uint (x ! last_byte_index)))
            in if 0 \<le> out \<and> out < 2 ^ nat bit_length then Inr out
               else Inl AssertionError)"

definition fetch_aligned_unsigned :: "int \<Rightarrow> deserializer \<Rightarrow> int result" where
  "fetch_aligned_unsigned bit_length d =
     (if bit_offset d mod 8 \<noteq> 0 then (Inl AssertionError, d)
      else
        let bs = py_slice (buf d) (byte_offset d) (byte_offset d + (bit_length + 7) div 8)
        in if int (length bs) * 8 < bit_length then (Inl IndexError, d)
           else (unsigned_from_bytes bs bit_length, advance bit_length d))"

definition fetch_aligned_signed :: "int \<Rightarrow> deserializer \<Rightarrow> int result" where
  "fetch_aligned_signed bit_length =
     and_then (assert (bit_length \<ge> 2)) (\<lambda>_.
     and_then (fetch_aligned_unsigned bit_length) (\<lambda>u.
     return (if u \<ge> 2 ^ nat (bit_length - 1) then u - 2 ^ nat bit_length else u)))"

subsection \<open>Unaligned reads\<close>

text \<open>
  The loop of \<open>fetch_unaligned_bytes\<close> over \<open>range(last_index)\<close>: \<open>k\<close> iterations are
  left and \<open>i\<close> is the loop variable. The shift left of a \<open>uint8\<close> masked with
  \<open>0xFF\<close> is the shift inside a byte.
\<close>

fun unaligned_loop ::
  "nat \<Rightarrow> nat \<Rightarrow> nat \<Rightarrow> nat \<Rightarrow> byte list \<Rightarrow> deserializer \<Rightarrow> byte list result"
where
  "unaligned_loop 0 i left right out d = (Inr out, d)"
| "unaligned_loop (Suc k) i left right out d =
     (case py_index (buf d) (byte_offset d) of
        Inl e \<Rightarrow> (Inl e, d)
      | Inr a \<Rightarrow>
          (case py_index (buf d) (byte_offset d + 1) of
             Inl e \<Rightarrow> (Inl e, d)
           | Inr b \<Rightarrow>
               unaligned_loop k (Suc i) left right
                 (out[i := push_bit left a OR drop_bit right b]) (advance 8 d)))"

text \<open>
  \<open>numpy.empty\<close> leaves the new array uninitialised; every cell is assigned before the
  array is returned, so the initial content (zeros here) is never seen. The allocation
  itself is taken to succeed: a \<open>count\<close> that the memory of the host cannot hold is not a
  request this development speaks of.
\<close>

definition fetch_unaligned_bytes :: "int \<Rightarrow> deserializer \<Rightarrow> byte list result" where
  "fetch_unaligned_bytes count d =
     (if count > 0 then
        if bit_offset d mod 8 \<noteq> 0 then
          let out = replicate (nat count) (0 :: byte);
              left = nat (bit_offset d mod 8);
              right = 8 - left
          in if \<not> ((1 \<le> right \<and> right \<le> 7) \<and> (1 \<le> left \<and> left \<le> 7))
             then (Inl AssertionError, d)
             else
               let last_index = nat (count - 1) in
               case unaligned_loop last_index 0 left right out d of
                 (Inl e, d1) \<Rightarrow> (Inl e, d1)
               | (Inr out1, d1) \<Rightarrow>
                   (case py_index (buf d1) (byte_offset d1) of
                      Inl e \<Rightarrow> (Inl e, d1)
                    | Inr a \<Rightarrow>
                        let x = push_bit left a;
                            d2 = advance 8 d1;
                            x2 = (case py_index (buf d2) (byte_offset d2) of
                                    Inl e \<Rightarrow> x
                                  | Inr b \<Rightarrow> x OR drop_bit right b);
                            out2 = out1[last_index := x2]
                        in if int (length out2) = count then (Inr out2, d2)
                           else (Inl AssertionError, d2))
        else fetch_aligned_bytes count d
      else (Inr [], d))"

definition fetch_unaligned_array_of_bits :: "int \<Rightarrow> deserializer \<Rightarrow> bool list result" where
  "fetch_unaligned_array_of_bits count =
     (let byte_count = (count + 7) div 8 in
      and_then (fetch_unaligned_bytes byte_count) (\<lambda>bs.
      and_then (assert (int (length bs) = byte_count)) (\<lambda>_.
      let backtrack = byte_count * 8 - count in
      and_then (assert (0 \<le> backtrack \<and> backtrack < 8)) (\<lambda>_.
      and_then (add_bit_offset (- backtrack)) (\<lambda>_.
      let out = py_slice (unpackbits bs) 0 count in
      and_then (assert (int (length out) = count)) (\<lambda>_.
      return out))))))"

definition fetch_unaligned_unsigned :: "int \<Rightarrow> deserializer \<Rightarrow> int result" where
  "fetch_unaligned_unsigned bit_length =
     (let byte_length = (bit_length + 7) div 8 in
      and_then (fetch_unaligned_bytes byte_length) (\<lambda>bs.
      and_then (assert (int (length bs) = byte_length)) (\<lambda>_.
      let backtrack = byte_length * 8 - bit_length in
      and_then (assert (0 \<le> backtrack \<and> backtrack < 8)) (\<lambda>_ d.
      (unsigned_from_bytes bs bit_length, advance (- backtrack) d)))))"

definition fetch_unaligned_signed :: "int \<Rightarrow> deserializer \<Rightarrow> int result" where
  "fetch_unaligned_signed bit_length =
     and_then (assert (bit_length \<ge> 2)) (\<lambda>_.
     and_then (fetch_unaligned_unsigned bit_length) (\<lambda>u.
     return (if u \<ge> 2 ^ nat (bit_length - 1) then u - 2 ^ nat bit_length else u)))"

definition fetch_unaligned_f16 :: "(byte list \<Rightarrow> 'f) \<Rightarrow> deserializer \<Rightarrow> 'f result" where
  "fetch_unaligned_f16 unpack = and_then (fetch_unaligned_bytes 2) (\<lambda>bs. return (unpack bs))"

definition fetch_unaligned_f32 :: "(byte list \<Rightarrow> 'f) \<Rightarrow> deserializer \<Rightarrow> 'f result" where
  "fetch_unaligned_f32 unpack = and_then (fetch_unaligned_bytes 4) (\<lambda>bs. return (unpack bs))"

definition fetch_unaligned_f64 :: "(byte list \<Rightarrow> 'f) \<Rightarrow> deserializer \<Rightarrow> 'f result" where
  "fetch_unaligned_f64 unpack = and_then (fetch_unaligned_bytes 8) (\<lambda>bs. return (unpack bs))"

text \<open>
  The mask \<open>1 << (7 - bit_offset % 8)\<close> selects bit \<open>7 - bit_offset % 8\<close> of the byte
  under the cursor.
\<close>

definition fetch_unaligned_bit :: "deserializer \<Rightarrow> bool result" where
  "fetch_unaligned_bit d =
     (let mask = push_bit (nat (7 - bit_offset d mod 8)) (1 :: int) in
      if \<not> (1 \<le> mask \<and> mask \<le> 128) then (Inl AssertionError, d)
      else case py_index (buf d) (byte_offset d) of
             Inl e \<Rightarrow> (Inl e, d)
           | Inr b \<Rightarrow> (Inr (uint b AND mask = mask), advance 1 d))"

subsection \<open>Arrays of standard-width primitives on a little-endian host\<close>

text \<open>
  \<open>numpy.frombuffer(buffer, dtype, count, offset)\<close> for a \<open>dtype\<close> of \<open>itemsize\<close>
  bytes. Both integers are converted to the C type \<open>ssize_t\<close> (64 bits here) when the
  arguments are parsed, which raises OverflowError outside its range. A negative \<open>count\<close>
  takes everything from \<open>offset\<close> on. An element is represented by its \<open>itemsize\<close> bytes.
\<close>

definition fits_ssize_t :: "int \<Rightarrow> bool" where
  "fits_ssize_t n \<longleftrightarrow> - (2 ^ 63) \<le> n \<and> n < 2 ^ 63"

definition chunks :: "nat \<Rightarrow> nat \<Rightarrow> byte list \<Rightarrow> byte list list" where
  "chunks itemsize n xs = map (\<lambda>i. take itemsize (drop (i * itemsize) xs)) [0..<n]"

definition np_frombuffer :: "byte list \<Rightarrow> nat \<Rightarrow> int \<Rightarrow> int \<Rightarrow> error + byte list list" where
  "np_frombuffer buffer itemsize count offset =
     (if \<not> fits_ssize_t count \<or> \<not> fits_ssize_t offset then Inl OverflowError
      else if offset < 0 \<or> offset > int (length buffer) then Inl ValueError
      else
        let s = length buffer - nat offset in
        if count < 0 then
          if itemsize = 0 then Inl ValueError
          else if s mod itemsize \<noteq> 0 then Inl ValueError
          else Inr (chunks itemsize (s div itemsize) (drop (nat offset) buffer))
        else if int s < count * int itemsize then Inl ValueError
        else Inr (chunks itemsize (nat count) (drop (nat offset) buffer)))"

definition fetch_aligned_array_of_standard_bit_length_primitives ::
  "nat \<Rightarrow> int \<Rightarrow> deserializer \<Rightarrow> byte list list result"
where
  "fetch_aligned_array_of_standard_bit_length_primitives itemsize count d =
     (if bit_offset d mod 8 \<noteq> 0 then (Inl AssertionError, d)
      else case np_frombuffer (buf d) itemsize count (byte_offset d) of
             Inl e \<Rightarrow> (Inl e, d)
           | Inr out \<Rightarrow>
               if int (length out) \<noteq> count then (Inl AssertionError, d)
               else (Inr out, advance (int (length out * itemsize) * 8) d))"

definition fetch_unaligned_array_of_standard_bit_length_primitives ::
  "nat \<Rightarrow> int \<Rightarrow> deserializer \<Rightarrow> byte list list result"
where
  "fetch_unaligned_array_of_standard_bit_length_primitives itemsize count =
     and_then (fetch_unaligned_bytes (int itemsize * count)) (\<lambda>bs.
     and_then (assert (int (length bs) \<ge> count)) (\<lambda>_ d.
     case np_frombuffer bs itemsize count 0 of
       Inl e \<Rightarrow> (Inl e, d)
     | Inr out \<Rightarrow> (Inr out, d)))"

section \<open>Composite objects (\<open>_composite_object.py\<close>)\<close>

text \<open>
  What the attribute \<open>_MODEL_\<close> of a class holds. \<open>CompositeObject\<close> only annotates it;
  a generated class assigns a \<open>pydsdl.CompositeType\<close> to it.
\<close>

datatype 'm model_attribute = NoAttribute | NotACompositeType | CompositeType 'm

text \<open>
  A class derived from \<open>CompositeObject\<close>: its model, its size bound, and its two
  methods. The serializer is not part of this development; its type is the parameter \<open>'s\<close>.
\<close>

record ('m, 'v, 's) composite_class =
  MODEL :: "'m model_attribute"
  MAX_SERIALIZED_REPRESENTATION_SIZE_BYTES :: int
  serialize_aligned :: "'v \<Rightarrow> 's \<Rightarrow> (error + unit) \<times> 's"
  deserialize_aligned :: "deserializer \<Rightarrow> 'v result"

text \<open>The two methods that \<open>ServiceObject\<close> gives to every service class.\<close>

definition ServiceObject_serialize_aligned :: "'v \<Rightarrow> 's \<Rightarrow> (error + unit) \<times> 's" where
  "ServiceObject_serialize_aligned self ser = (Inl TypeError, ser)"

definition ServiceObject_deserialize_aligned :: "deserializer \<Rightarrow> 'v result" where
  "ServiceObject_deserialize_aligned des = (Inl TypeError, des)"

text \<open>
  A service class, \<open>ServiceObject\<close> itself or one derived from it: it keeps the inherited
  methods and the size bound 0, whatever its model attribute is.
  \<open>FixedPortServiceObject\<close> adds nothing to \<open>ServiceObject\<close> but the port identifier.
\<close>

definition ServiceObject :: "'m model_attribute \<Rightarrow> ('m, 'v, 's) composite_class" where
  "ServiceObject model =
     \<lparr>MODEL = model, MAX_SERIALIZED_REPRESENTATION_SIZE_BYTES = 0,
      serialize_aligned = ServiceObject_serialize_aligned,
      deserialize_aligned = ServiceObject_deserialize_aligned\<rparr>"

text \<open>
  \<open>get_model\<close>: reading an attribute that is not there raises AttributeError, and the
  \<open>assert isinstance\<close> rejects anything that is not a composite type.
\<close>

definition get_model :: "('m, 'v, 's) composite_class \<Rightarrow> error + 'm" where
  "get_model class_or_instance =
     (case MODEL class_or_instance of
        NoAttribute \<Rightarrow> Inl AttributeError
      | NotACompositeType \<Rightarrow> Inl AssertionError
      | CompositeType out \<Rightarrow> Inr out)"

text \<open>
  The buffer that \<open>deserialize\<close> reads: the only fragment, or the fragments joined.
\<close>

definition contiguous :: "byte list list \<Rightarrow> byte list" where
  "contiguous fragmented_serialized_representation =
     (if length fragmented_serialized_representation = 1
      then fragmented_serialized_representation ! 0
      else concat fragmented_serialized_representation)"

text \<open>
  \<open>deserialize\<close>. \<open>Deserializer.new\<close> rejects only arrays that are not flat arrays of
  bytes, which a byte string is. When the format is invalid and the logger takes records
  of level INFO (\<open>info_enabled\<close>), the arguments of the record are evaluated before
  \<open>None\<close> is returned, \<open>get_model dtype\<close> among them, which may raise; the record itself
  has no effect on the result. Byte strings are values here: whether the memory of a
  fragment is shared with the result or may be written to is outside this development.
\<close>

definition deserialize ::
  "bool \<Rightarrow> ('m, 'v, 's) composite_class \<Rightarrow> byte list list \<Rightarrow> error + 'v option"
where
  "deserialize info_enabled dtype fragmented_serialized_representation =
     (let deserializer = Deserializer_new (contiguous fragmented_serialized_representation)
      in case fst (deserialize_aligned dtype deserializer) of
           Inr v \<Rightarrow> Inr (Some v)
         | Inl e \<Rightarrow>
             if e = FormatError then
               if info_enabled then
                 (case get_model dtype of Inl e' \<Rightarrow> Inl e' | Inr model \<Rightarrow> Inr None)
               else Inr None
             else Inl e)"

subsection \<open>Attributes\<close>

text \<open>An object is the finite map from its attribute names to their values.\<close>

definition getattr :: "(string \<rightharpoonup> 'a) \<Rightarrow> string \<Rightarrow> error + 'a" where
  "getattr obj name = (case obj name of None \<Rightarrow> Inl AttributeError | Some v \<Rightarrow> Inr v)"

definition hasattr :: "(string \<rightharpoonup> 'a) \<Rightarrow> string \<Rightarrow> bool" where
  "hasattr obj name = (obj name \<noteq> None)"

definition setattr :: "(string \<rightharpoonup> 'a) \<Rightarrow> string \<Rightarrow> 'a \<Rightarrow> (string \<rightharpoonup> 'a)" where
  "setattr obj name v = obj(name \<mapsto> v)"

definition get_attribute :: "(string \<rightharpoonup> 'a) \<Rightarrow> string \<Rightarrow> error + 'a" where
  "get_attribute obj name =
     (case getattr obj name of
        Inr v \<Rightarrow> Inr v
      | Inl e \<Rightarrow> if e = AttributeError then getattr obj (name @ ''_'') else Inl e)"

definition set_attribute ::
  "(string \<rightharpoonup> 'a) \<Rightarrow> string \<Rightarrow> 'a \<Rightarrow> (error + unit) \<times> (string \<rightharpoonup> 'a)"
where
  "set_attribute obj name v =
     (let suffixed = name @ ''_'' in
      if hasattr obj name then (Inr (), setattr obj name v)
      else if hasattr obj suffixed then (Inr (), setattr obj suffixed v)
      else (Inl AttributeError, obj))"

section \<open>Notions used to state the properties\<close>

text \<open>
  The last byte that the unaligned byte read produces from the source byte \<open>a\<close>: its
  bits shifted left, joined with the high bits of the next source byte when there is one.
\<close>

definition last_byte :: "nat \<Rightarrow> nat \<Rightarrow> deserializer \<Rightarrow> byte \<Rightarrow> byte" where
  "last_byte left right d2 a =
     (case py_index (buf d2) (byte_offset d2) of
        Inl e \<Rightarrow> push_bit left a
      | Inr b \<Rightarrow> push_bit left a OR drop_bit right b)"

text \<open>
  The value of an unsigned integer laid out in the bytes \<open>x\<close>: byte \<open>i\<close> of the first
  \<open>n - 1\<close> bytes shifted left by \<open>8 * i\<close>, and the high \<open>k\<close> bits of byte \<open>n - 1\<close>,
  shifted right to justify and then left by \<open>8 * (n - 1)\<close>.
\<close>

definition whole_bytes :: "byte list \<Rightarrow> nat \<Rightarrow> int" where
  "whole_bytes x n = (\<Sum>i<n. push_bit (8 * i) (uint (x ! i)))"

definition final_byte_part :: "byte \<Rightarrow> nat \<Rightarrow> int" where
  "final_byte_part b k = drop_bit (8 - k) (uint b)"

definition reconstructed :: "byte list \<Rightarrow> nat \<Rightarrow> nat \<Rightarrow> int" where
  "reconstructed x n k =
     whole_bytes x (n - 1) + push_bit (8 * (n - 1)) (final_byte_part (x ! (n - 1)) k)"

text \<open>
  The number of bits that the final byte of a \<open>bit_length\<close>-bit value holds: the
  remainder of \<open>bit_length\<close> by eight, or all eight when that remainder is zero.
\<close>

definition final_byte_bits :: "int \<Rightarrow> nat" where
  "final_byte_bits bit_length = (if bit_length mod 8 = 0 then 8 else nat (bit_length mod 8))"

text \<open>
  A read moves the cursor by \<open>L v\<close> bits when it returns \<open>v\<close>; nothing is said of a
  read that raises.
\<close>

definition advances_by :: "(deserializer \<Rightarrow> 'a result) \<Rightarrow> ('a \<Rightarrow> int) \<Rightarrow> deserializer \<Rightarrow> bool" where
  "advances_by fetch L d =
     (case fetch d of
        (Inl e, d') \<Rightarrow> True
      | (Inr v, d') \<Rightarrow> consumed_bit_length d' = consumed_bit_length d + L v)"

text \<open>
  A read of a sequence returns exactly \<open>n\<close> elements and moves the cursor by \<open>L\<close> bits,
  when it returns.
\<close>

definition reads_list :: "(deserializer \<Rightarrow> 'a list result) \<Rightarrow> int \<Rightarrow> int \<Rightarrow> deserializer \<Rightarrow> bool" where
  "reads_list fetch n L d =
     (case fetch d of
        (Inl e, d') \<Rightarrow> True
      | (Inr out, d') \<Rightarrow>
          int (length out) = n \<and> consumed_bit_length d' = consumed_bit_length d + L)"

text \<open>
  Byte \<open>j\<close> of the buffer \<open>b\<close> as an unaligned read sees it \<open>left\<close> bits into the byte:
  its bits shifted left inside the byte, joined with the high \<open>left\<close> bits of byte
  \<open>j + 1\<close>, or with nothing when the buffer ends at byte \<open>j\<close>.
\<close>

definition shifted_byte :: "byte list \<Rightarrow> nat \<Rightarrow> nat \<Rightarrow> byte" where
  "shifted_byte b left j =
     push_bit left (b ! j) OR (if Suc j < length b then drop_bit (8 - left) (b ! Suc j) else 0)"

section \<open>Running a method\<close>

lemma and_then_Inr:
  "and_then m f d = (Inr y, d') \<longleftrightarrow> (\<exists>x d1. m d = (Inr x, d1) \<and> f x d1 = (Inr y, d'))"
  by (auto simp: and_then_def split: prod.splits sum.splits)

lemma return_Inr: "return x d = (Inr y, d') \<longleftrightarrow> y = x \<and> d' = d"
  by (auto simp: return_def)

lemma assert_Inr: "assert b d = (Inr u, d') \<longleftrightarrow> b \<and> d' = d"
  by (auto simp: assert_def)

lemma add_bit_offset_Inr: "add_bit_offset n d = (Inr u, d') \<longleftrightarrow> d' = advance n d"
  by (auto simp: add_bit_offset_def)

lemmas run_simps = and_then_Inr return_Inr assert_Inr add_bit_offset_Inr

lemma bit_offset_advance: "bit_offset (advance n d) = bit_offset d + n"
  by (simp add: advance_def)

lemma buf_advance: "buf (advance n d) = buf d"
  by (simp add: advance_def)

lemma u8_cursor: "fetch_aligned_u8 d = (Inr v, d') \<Longrightarrow> bit_offset d' = bit_offset d + 8"
  by (auto simp: fetch_aligned_u8_def bit_offset_advance split: if_splits sum.splits)

lemma u16_cursor: "fetch_aligned_u16 d = (Inr v, d') \<Longrightarrow> bit_offset d' = bit_offset d + 16"
  by (auto simp: fetch_aligned_u16_def run_simps dest!: u8_cursor)

lemma u32_cursor: "fetch_aligned_u32 d = (Inr v, d') \<Longrightarrow> bit_offset d' = bit_offset d + 32"
  by (auto simp: fetch_aligned_u32_def run_simps dest!: u16_cursor)

lemma u64_cursor: "fetch_aligned_u64 d = (Inr v, d') \<Longrightarrow> bit_offset d' = bit_offset d + 64"
  by (auto simp: fetch_aligned_u64_def run_simps dest!: u32_cursor)

lemma i8_cursor: "fetch_aligned_i8 d = (Inr v, d') \<Longrightarrow> bit_offset d' = bit_offset d + 8"
  by (auto simp: fetch_aligned_i8_def run_simps dest!: u8_cursor)

lemma i16_cursor: "fetch_aligned_i16 d = (Inr v, d') \<Longrightarrow> bit_offset d' = bit_offset d + 16"
  by (auto simp: fetch_aligned_i16_def run_simps dest!: u16_cursor)

lemma i32_cursor: "fetch_aligned_i32 d = (Inr v, d') \<Longrightarrow> bit_offset d' = bit_offset d + 32"
  by (auto simp: fetch_aligned_i32_def run_simps dest!: u32_cursor)

lemma i64_cursor: "fetch_aligned_i64 d = (Inr v, d') \<Longrightarrow> bit_offset d' = bit_offset d + 64"
  by (auto simp: fetch_aligned_i64_def run_simps dest!: u64_cursor)

lemma aligned_bytes_cursor:
  "fetch_aligned_bytes count d = (Inr out, d') \<Longrightarrow>
     int (length out) = count \<and> bit_offset d' = bit_offset d + 8 * int (length out)"
  by (auto simp: fetch_aligned_bytes_def bit_offset_advance Let_def split: if_splits)

lemma aligned_bits_cursor:
  "fetch_aligned_array_of_bits count d = (Inr out, d') \<Longrightarrow>
     int (length out) = count \<and> bit_offset d' = bit_offset d + int (length out)"
  by (auto simp: fetch_aligned_array_of_bits_def bit_offset_advance Let_def split: if_splits)

lemma aligned_f_cursor:
  "fetch_aligned_f16 unpack d = (Inr v, d') \<Longrightarrow> bit_offset d' = bit_offset d + 16"
  "fetch_aligned_f32 unpack d = (Inr v, d') \<Longrightarrow> bit_offset d' = bit_offset d + 32"
  "fetch_aligned_f64 unpack d = (Inr v, d') \<Longrightarrow> bit_offset d' = bit_offset d + 64"
  by (auto simp: fetch_aligned_f16_def fetch_aligned_f32_def fetch_aligned_f64_def run_simps
           dest!: aligned_bytes_cursor)

lemma aligned_unsigned_cursor:
  "fetch_aligned_unsigned bit_length d = (Inr v, d') \<Longrightarrow> bit_offset d' = bit_offset d + bit_length"
  by (auto simp: fetch_aligned_unsigned_def bit_offset_advance Let_def split: if_splits)

lemma aligned_signed_cursor:
  "fetch_aligned_signed bit_length d = (Inr v, d') \<Longrightarrow> bit_offset d' = bit_offset d + bit_length"
  by (auto simp: fetch_aligned_signed_def run_simps dest!: aligned_unsigned_cursor)

lemma unaligned_loop_cursor:
  "unaligned_loop k i left right out d = (Inr out', d') \<Longrightarrow>
     bit_offset d' = bit_offset d + 8 * int k \<and> buf d' = buf d \<and> length out' = length out"
proof (induction k arbitrary: i out d)
  case 0
  then show ?case by simp
next
  case (Suc k)
  from Suc.prems obtain a b where
    rec: "unaligned_loop k (Suc i) left right (out[i := push_bit left a OR drop_bit right b])
            (advance 8 d) = (Inr out', d')"
    by (auto split: sum.splits)
  from Suc.IH [OF rec] show ?case
    by (simp add: bit_offset_advance buf_advance)
qed

lemma fetch_unaligned_bytes_nonpos:
  "count \<le> 0 \<Longrightarrow> fetch_unaligned_bytes count d = (Inr [], d)"
  by (simp add: fetch_unaligned_bytes_def)

lemma fetch_unaligned_bytes_aligned:
  "count > 0 \<Longrightarrow> bit_offset d mod 8 = 0 \<Longrightarrow>
     fetch_unaligned_bytes count d = fetch_aligned_bytes count d"
  by (simp add: fetch_unaligned_bytes_def)

lemma fetch_unaligned_bytes_unaligned:
  assumes "count > 0" and "bit_offset d mod 8 \<noteq> 0"
  shows "fetch_unaligned_bytes count d =
     (case unaligned_loop (nat (count - 1)) 0 (nat (bit_offset d mod 8))
             (8 - nat (bit_offset d mod 8)) (replicate (nat count) 0) d of
        (Inl e, d1) \<Rightarrow> (Inl e, d1)
      | (Inr out1, d1) \<Rightarrow>
          (case py_index (buf d1) (byte_offset d1) of
             Inl e \<Rightarrow> (Inl e, d1)
           | Inr a \<Rightarrow>
               if int (length out1) = count
               then (Inr (out1[nat (count - 1) :=
                       last_byte (nat (bit_offset d mod 8)) (8 - nat (bit_offset d mod 8))
                         (advance 8 d1) a]), advance 8 d1)
               else (Inl AssertionError, advance 8 d1)))"
proof -
  have "0 \<le> bit_offset d mod 8" "bit_offset d mod 8 < 8"
    by simp_all
  with assms(2) have "1 \<le> nat (bit_offset d mod 8)" "nat (bit_offset d mod 8) \<le> 7"
    "1 \<le> 8 - nat (bit_offset d mod 8)" "8 - nat (bit_offset d mod 8) \<le> 7"
    by linarith+
  then show ?thesis
    using assms
    by (simp add: fetch_unaligned_bytes_def Let_def last_byte_def
             split: prod.splits sum.splits)
qed

lemma unaligned_bytes_cursor:
  assumes "fetch_unaligned_bytes count d = (Inr out, d')"
  shows "bit_offset d' = bit_offset d + 8 * int (length out)
         \<and> int (length out) = max 0 count"
proof -
  consider "count \<le> 0" | "count > 0" "bit_offset d mod 8 = 0"
    | "count > 0" "bit_offset d mod 8 \<noteq> 0"
    by linarith
  then show ?thesis
  proof cases
    case 1
    with assms show ?thesis
      by (simp add: fetch_unaligned_bytes_nonpos)
  next
    case 2
    with assms aligned_bytes_cursor [of count d out d'] show ?thesis
      by (simp add: fetch_unaligned_bytes_aligned)
  next
    case 3
    let ?loop = "unaligned_loop (nat (count - 1)) 0 (nat (bit_offset d mod 8))
             (8 - nat (bit_offset d mod 8)) (replicate (nat count) 0) d"
    from assms 3 obtain out1 d1 a where
      loop: "?loop = (Inr out1, d1)" and
      len: "int (length out1) = count" and
      res: "length out = length out1" "d' = advance 8 d1"
      by (auto simp: fetch_unaligned_bytes_unaligned split: prod.splits sum.splits if_splits)
    from unaligned_loop_cursor [OF loop] 3(1) res len show ?thesis
      by (simp add: bit_offset_advance)
  qed
qed

lemma unaligned_unsigned_cursor:
  "fetch_unaligned_unsigned bit_length d = (Inr v, d') \<Longrightarrow> bit_offset d' = bit_offset d + bit_length"
  by (auto simp: fetch_unaligned_unsigned_def Let_def run_simps bit_offset_advance
           dest!: unaligned_bytes_cursor)

lemma unaligned_signed_cursor:
  "fetch_unaligned_signed bit_length d = (Inr v, d') \<Longrightarrow> bit_offset d' = bit_offset d + bit_length"
  by (auto simp: fetch_unaligned_signed_def run_simps dest!: unaligned_unsigned_cursor)

lemma unaligned_bits_cursor:
  "fetch_unaligned_array_of_bits count d = (Inr out, d') \<Longrightarrow>
     int (length out) = count \<and> bit_offset d' = bit_offset d + int (length out)"
  by (auto simp: fetch_unaligned_array_of_bits_def Let_def run_simps bit_offset_advance
           dest!: unaligned_bytes_cursor)

lemma unaligned_f_cursor:
  "fetch_unaligned_f16 unpack d = (Inr v, d') \<Longrightarrow> bit_offset d' = bit_offset d + 16"
  "fetch_unaligned_f32 unpack d = (Inr v, d') \<Longrightarrow> bit_offset d' = bit_offset d + 32"
  "fetch_unaligned_f64 unpack d = (Inr v, d') \<Longrightarrow> bit_offset d' = bit_offset d + 64"
  by (auto simp: fetch_unaligned_f16_def fetch_unaligned_f32_def fetch_unaligned_f64_def run_simps
           dest!: unaligned_bytes_cursor)

lemma unaligned_bit_cursor:
  "fetch_unaligned_bit d = (Inr v, d') \<Longrightarrow> bit_offset d' = bit_offset d + 1"
  by (auto simp: fetch_unaligned_bit_def Let_def bit_offset_advance split: if_splits sum.splits)

lemma length_chunks: "length (chunks itemsize n xs) = n"
  by (simp add: chunks_def)

lemma aligned_array_cursor:
  "fetch_aligned_array_of_standard_bit_length_primitives itemsize count d = (Inr out, d') \<Longrightarrow>
     int (length out) = count \<and> bit_offset d' = bit_offset d + 8 * int itemsize * int (length out)"
  by (auto simp: fetch_aligned_array_of_standard_bit_length_primitives_def bit_offset_advance
           split: if_splits sum.splits)

lemma np_frombuffer_count:
  "np_frombuffer b itemsize count offset = Inr out \<Longrightarrow> 0 \<le> count \<Longrightarrow> int (length out) = count"
  by (auto simp: np_frombuffer_def Let_def length_chunks split: if_splits)

lemma np_frombuffer_empty:
  "np_frombuffer [] itemsize count 0 = Inr out \<Longrightarrow> count < 0 \<Longrightarrow> out = []"
  by (auto simp: np_frombuffer_def Let_def chunks_def split: if_splits)

lemma unaligned_array_cursor:
  assumes "fetch_unaligned_array_of_standard_bit_length_primitives itemsize count d = (Inr out, d')"
  shows "int (length out) = max 0 count
         \<and> bit_offset d' = bit_offset d + 8 * int itemsize * max 0 count"
proof -
  from assms obtain bs d1 where
    fetch1: "fetch_unaligned_bytes (int itemsize * count) d = (Inr bs, d1)" and
    rest: "(case np_frombuffer bs itemsize count 0 of
              Inl e \<Rightarrow> (Inl e, d1) | Inr out \<Rightarrow> (Inr out, d1)) = (Inr out, d')"
    by (auto simp: fetch_unaligned_array_of_standard_bit_length_primitives_def run_simps)
  from rest have frombuffer: "np_frombuffer bs itemsize count 0 = Inr out" and "d1 = d'"
    by (cases "np_frombuffer bs itemsize count 0"; simp)+
  with fetch1 have fetch: "fetch_unaligned_bytes (int itemsize * count) d = (Inr bs, d')"
    by simp
  from unaligned_bytes_cursor [OF fetch] have
    cursor: "bit_offset d' = bit_offset d + 8 * int (length bs)" and
    len: "int (length bs) = max 0 (int itemsize * count)"
    by simp_all
  show ?thesis
  proof (cases "0 \<le> count")
    case True
    with frombuffer have "int (length out) = count"
      by (simp add: np_frombuffer_count)
    moreover from True have "0 \<le> int itemsize * count"
      by simp
    ultimately show ?thesis
      using True len cursor by simp
  next
    case False
    then have "int itemsize * count \<le> 0"
      by (simp add: mult_le_0_iff)
    with len have "bs = []"
      by simp
    with frombuffer False have "out = []"
      by (simp add: np_frombuffer_empty)
    with \<open>bs = []\<close> False cursor show ?thesis by simp
  qed
qed

section \<open>Unsigned integers from bytes\<close>

lemma not_bit_of_small: "0 \<le> a \<Longrightarrow> a < 2 ^ m \<Longrightarrow> m \<le> n \<Longrightarrow> \<not> bit (a :: int) n"
proof -
  assume a: "0 \<le> a" "a < 2 ^ m" "m \<le> n"
  then have "take_bit m a = a" by (simp add: take_bit_int_eq_self)
  then have "bit a n = bit (take_bit m a) n" by simp
  also have "\<dots> = (n < m \<and> bit a n)" by (simp add: bit_take_bit_iff)
  finally show ?thesis using a(3) by simp
qed

lemma or_push_bit_add:
  "0 \<le> a \<Longrightarrow> a < 2 ^ m \<Longrightarrow> a OR push_bit m b = a + push_bit m (b :: int)"
  by (rule disjunctive_add [symmetric]) (auto simp: bit_push_bit_iff dest: not_bit_of_small)

lemma whole_bytes_Suc:
  "whole_bytes x (Suc n) = whole_bytes x n + push_bit (8 * n) (uint (x ! n))"
  by (simp add: whole_bytes_def)

lemma whole_bytes_range: "0 \<le> whole_bytes x n \<and> whole_bytes x n < 2 ^ (8 * n)"
proof (induction n)
  case 0
  show ?case by (simp add: whole_bytes_def)
next
  case (Suc n)
  have u: "0 \<le> uint (x ! n)" "uint (x ! n) \<le> 255"
    using uint_bounded [of "x ! n"] by simp_all
  have a: "uint (x ! n) * 2 ^ (8 * n) \<le> 255 * 2 ^ (8 * n)"
    using u by (simp add: mult_right_mono)
  have b: "0 \<le> uint (x ! n) * (2 :: int) ^ (8 * n)"
    using u by simp
  have c: "(2 :: int) ^ (8 * Suc n) = 256 * 2 ^ (8 * n)"
    by (simp add: power_add)
  show ?case
    unfolding whole_bytes_Suc push_bit_eq_mult c
    using Suc a b by linarith
qed

lemma fold_or_whole_bytes:
  "fold (\<lambda>i out. out OR push_bit (i * 8) (uint (x ! i))) [0..<n] 0 = whole_bytes x n"
proof (induction n)
  case 0
  show ?case by (simp add: whole_bytes_def)
next
  case (Suc n)
  from whole_bytes_range [of x n]
  have "whole_bytes x n OR push_bit (8 * n) (uint (x ! n))
          = whole_bytes x n + push_bit (8 * n) (uint (x ! n))"
    by (simp add: or_push_bit_add)
  with Suc show ?case
    by (simp add: whole_bytes_Suc mult.commute)
qed

lemma and_7_eq_mod_8: "(k :: int) AND 7 = k mod 8"
proof -
  have "(7 :: int) = mask 3" by (simp add: mask_eq_exp_minus_1)
  then have "k AND 7 = take_bit 3 k" by (simp add: take_bit_eq_mask)
  then show ?thesis by (simp add: take_bit_eq_mod)
qed

lemma final_byte_part_range:
  assumes "k \<le> 8"
  shows "0 \<le> final_byte_part b k \<and> final_byte_part b k < 2 ^ k"
proof -
  have "uint b = take_bit 8 (uint b)"
    using uint_bounded [of b] by (simp add: take_bit_int_eq_self)
  then have "final_byte_part b k = drop_bit (8 - k) (take_bit 8 (uint b))"
    by (simp add: final_byte_part_def)
  also have "\<dots> = take_bit k (drop_bit (8 - k) (uint b))"
    using assms by (simp add: drop_bit_take_bit)
  finally show ?thesis
    by simp
qed

lemma reconstructed_range:
  assumes "k \<le> 8"
  shows "0 \<le> reconstructed x n k \<and> reconstructed x n k < 2 ^ (8 * (n - 1) + k)"
proof -
  let ?m = "8 * (n - 1)"
  let ?f = "final_byte_part (x ! (n - 1)) k"
  from final_byte_part_range [OF assms, of "x ! (n - 1)"]
  have f: "0 \<le> ?f" "?f \<le> 2 ^ k - 1" by simp_all
  have a: "?f * 2 ^ ?m \<le> (2 ^ k - 1) * 2 ^ ?m"
    using f by (simp add: mult_right_mono)
  have b: "0 \<le> ?f * (2 :: int) ^ ?m"
    using f by simp
  have c: "(2 :: int) ^ (?m + k) = 2 ^ k * 2 ^ ?m"
    by (simp add: power_add)
  have d: "(2 ^ k - 1) * (2 :: int) ^ ?m = 2 ^ k * 2 ^ ?m - 2 ^ ?m"
    by (simp add: algebra_simps)
  show ?thesis
    unfolding reconstructed_def push_bit_eq_mult c
    using whole_bytes_range [of x "n - 1"] a b d by linarith
qed

lemma byte_count_split:
  assumes "1 \<le> bit_length"
  shows "1 \<le> nat ((bit_length + 7) div 8)"
    and "8 * (nat ((bit_length + 7) div 8) - 1) + final_byte_bits bit_length = nat bit_length"
    and "final_byte_bits bit_length \<le> 8"
    and "nat ((8 - bit_length mod 8) AND 7) = 8 - final_byte_bits bit_length"
proof -
  define q r where "q = bit_length div 8" and "r = bit_length mod 8"
  have bl: "bit_length = 8 * q + r" and r: "0 \<le> r" "r < 8"
    by (simp_all add: q_def r_def)
  have bits: "final_byte_bits bit_length = (if r = 0 then 8 else nat r)"
    by (simp add: final_byte_bits_def r_def)
  show "final_byte_bits bit_length \<le> 8"
    unfolding bits using r by (cases "r = 0") simp_all
  have both: "1 \<le> nat ((bit_length + 7) div 8)
      \<and> 8 * (nat ((bit_length + 7) div 8) - 1) + final_byte_bits bit_length = nat bit_length"
  proof (cases "r = 0")
    case True
    have "(bit_length + 7) div 8 = q"
      by (rule int_div_pos_eq [where r = 7]) (use bl True in simp_all)
    moreover from assms bl True have "1 \<le> q" by linarith
    ultimately show ?thesis
      unfolding bits using bl True by (simp; linarith)
  next
    case False
    have "(bit_length + 7) div 8 = q + 1"
      by (rule int_div_pos_eq [where r = "r - 1"]) (use bl r False in simp_all)
    moreover from assms bl r have "0 \<le> q" by linarith
    ultimately show ?thesis
      unfolding bits using bl r False by (simp; linarith)
  qed
  from both show "1 \<le> nat ((bit_length + 7) div 8)" ..
  from both
  show "8 * (nat ((bit_length + 7) div 8) - 1) + final_byte_bits bit_length = nat bit_length" ..
  show "nat ((8 - bit_length mod 8) AND 7) = 8 - final_byte_bits bit_length"
  proof (cases "r = 0")
    case True
    then show ?thesis
      unfolding bits by (simp add: and_7_eq_mod_8 r_def)
  next
    case False
    have "(8 - r) mod 8 = 8 - r"
    proof (rule mod_pos_pos_trivial)
      show "0 \<le> 8 - r" using r by linarith
      show "8 - r < 8" using r False by linarith
    qed
    moreover from r have "nat (8 - r) = 8 - nat r"
      by linarith
    ultimately show ?thesis
      unfolding bits using False by (simp add: and_7_eq_mod_8 flip: r_def)
  qed
qed

lemma unsigned_from_bytes_value:
  assumes "1 \<le> bit_length" and "(bit_length + 7) div 8 \<le> int (length x)"
  shows "unsigned_from_bytes x bit_length =
           Inr (reconstructed x (nat ((bit_length + 7) div 8)) (final_byte_bits bit_length))"
proof -
  let ?n = "nat ((bit_length + 7) div 8)"
  let ?k = "final_byte_bits bit_length"
  note split = byte_count_split [OF assms(1)]
  have idx: "nat ((bit_length + 7) div 8 - 1) = ?n - 1"
    by (simp add: nat_diff_distrib')
  have out: "whole_bytes x (?n - 1)
               OR push_bit ((?n - 1) * 8) (drop_bit (8 - ?k) (uint (x ! (?n - 1))))
             = reconstructed x ?n ?k"
    using whole_bytes_range [of x "?n - 1"]
    by (simp add: or_push_bit_add reconstructed_def final_byte_part_def mult.commute)
  from reconstructed_range [OF split(3), of x ?n] split(2)
  have range: "0 \<le> reconstructed x ?n ?k" "reconstructed x ?n ?k < 2 ^ nat bit_length"
    by simp_all
  have pos: "0 < (bit_length + 7) div 8"
    using split(1) by linarith
  have "unsigned_from_bytes x bit_length =
          (let out = whole_bytes x (?n - 1)
                 OR push_bit ((?n - 1) * 8) (drop_bit (8 - ?k) (uint (x ! (?n - 1))))
           in if 0 \<le> out \<and> out < 2 ^ nat bit_length then Inr out else Inl AssertionError)"
    using assms pos
    by (simp add: unsigned_from_bytes_def Let_def idx fold_or_whole_bytes split(4))
  also have "\<dots> = Inr (reconstructed x ?n ?k)"
    unfolding Let_def out using range by simp
  finally show ?thesis .
qed

lemma unsigned_from_bytes_range:
  "unsigned_from_bytes x bit_length = Inr v \<Longrightarrow> 0 \<le> v \<and> v < 2 ^ nat bit_length"
  by (auto simp: unsigned_from_bytes_def Let_def split: if_splits)

section \<open>Skipping bits\<close>

text \<open>
  C7: \<open>skip_bits\<close> moves the cursor forward by the requested number of bits when that
  many bits remain, and otherwise raises IndexError, which is not FormatError.
\<close>

theorem skip_bits_moves_or_IndexError:
  "(n \<le> remaining_bit_length d \<longrightarrow>
      (\<exists>d'. skip_bits n d = (Inr (), d')
          \<and> consumed_bit_length d' = consumed_bit_length d + n
          \<and> remaining_bit_length d' = remaining_bit_length d - n))
   \<and> (n > remaining_bit_length d \<longrightarrow> fst (skip_bits n d) = Inl IndexError)
   \<and> IndexError \<noteq> FormatError"
  by (simp add: skip_bits_def advance_def consumed_bit_length_def remaining_bit_length_def)

theorem skip_bits_moves_or_IndexError_witness:
  "(8 \<le> remaining_bit_length (Deserializer_new [1, 2, 3])
      \<and> (\<exists>d'. skip_bits 8 (Deserializer_new [1, 2, 3]) = (Inr (), d')
            \<and> consumed_bit_length d' = 8 \<and> remaining_bit_length d' = 16))
   \<and> (64 > remaining_bit_length (Deserializer_new [1, 2, 3])
      \<and> fst (skip_bits 64 (Deserializer_new [1, 2, 3])) = Inl IndexError)"
  using skip_bits_moves_or_IndexError [of 8 "Deserializer_new [1, 2, 3]"]
        skip_bits_moves_or_IndexError [of 64 "Deserializer_new [1, 2, 3]"]
  by (simp add: Deserializer_new_def remaining_bit_length_def consumed_bit_length_def)

text \<open>
  C9: a \<open>skip_bits\<close> that fails leaves the deserializer as it was: the consumed and
  the remaining bit lengths are those before the call.
\<close>

theorem skip_bits_failure_atomic:
  "n > remaining_bit_length d \<Longrightarrow>
     fst (skip_bits n d) = Inl IndexError
     \<and> snd (skip_bits n d) = d
     \<and> consumed_bit_length (snd (skip_bits n d)) = consumed_bit_length d
     \<and> remaining_bit_length (snd (skip_bits n d)) = remaining_bit_length d"
  by (simp add: skip_bits_def)

theorem skip_bits_failure_atomic_witness:
  "64 > remaining_bit_length (advance 8 (Deserializer_new [1, 2, 3]))
   \<and> fst (skip_bits 64 (advance 8 (Deserializer_new [1, 2, 3]))) = Inl IndexError
   \<and> consumed_bit_length (snd (skip_bits 64 (advance 8 (Deserializer_new [1, 2, 3])))) = 8
   \<and> remaining_bit_length (snd (skip_bits 64 (advance 8 (Deserializer_new [1, 2, 3])))) = 16"
  using skip_bits_failure_atomic [of "advance 8 (Deserializer_new [1, 2, 3])" 64]
  by (simp add: Deserializer_new_def remaining_bit_length_def consumed_bit_length_def advance_def)

section \<open>The cursor after a read\<close>

lemma advances_byI:
  "(\<And>v d'. fetch d = (Inr v, d') \<Longrightarrow> bit_offset d' = bit_offset d + L v)
     \<Longrightarrow> advances_by fetch L d"
  by (auto simp: advances_by_def consumed_bit_length_def split: prod.splits sum.splits)

lemma reads_listI:
  "(\<And>out d'. fetch d = (Inr out, d') \<Longrightarrow>
       int (length out) = n \<and> bit_offset d' = bit_offset d + L)
     \<Longrightarrow> reads_list fetch n L d"
  by (auto simp: reads_list_def consumed_bit_length_def split: prod.splits sum.splits)

text \<open>
  C4: every read that returns has moved the cursor by exactly the bit length of what was
  asked of it: one bit, the width of a standard integer or float, the requested
  \<open>bit_length\<close> of an integer of any width. A read of \<open>count\<close> bytes returns \<open>count\<close>
  bytes and moves by \<open>8 * count\<close> bits; a read of \<open>count\<close> bits returns \<open>count\<close> bits and
  moves by \<open>count\<close>; a read of \<open>count\<close> primitives of \<open>itemsize\<close> bytes returns \<open>count\<close>
  elements and moves by \<open>8 * itemsize * count\<close> bits. The unaligned reads of bytes and of
  primitives answer a negative \<open>count\<close> with an empty sequence and do not move, hence
  \<open>max 0 count\<close> there; the other sequence reads raise on a negative \<open>count\<close>. This holds
  also for the unaligned integer and bit-array reads, which first read whole bytes and then
  step back.
\<close>

theorem fetch_advances_cursor:
  "advances_by fetch_unaligned_bit (\<lambda>_. 1) d
   \<and> advances_by fetch_aligned_u8 (\<lambda>_. 8) d
   \<and> advances_by fetch_aligned_u16 (\<lambda>_. 16) d
   \<and> advances_by fetch_aligned_u32 (\<lambda>_. 32) d
   \<and> advances_by fetch_aligned_u64 (\<lambda>_. 64) d
   \<and> advances_by fetch_aligned_i8 (\<lambda>_. 8) d
   \<and> advances_by fetch_aligned_i16 (\<lambda>_. 16) d
   \<and> advances_by fetch_aligned_i32 (\<lambda>_. 32) d
   \<and> advances_by fetch_aligned_i64 (\<lambda>_. 64) d
   \<and> advances_by (fetch_aligned_unsigned bit_length) (\<lambda>_. bit_length) d
   \<and> advances_by (fetch_unaligned_unsigned bit_length) (\<lambda>_. bit_length) d
   \<and> advances_by (fetch_aligned_signed bit_length) (\<lambda>_. bit_length) d
   \<and> advances_by (fetch_unaligned_signed bit_length) (\<lambda>_. bit_length) d
   \<and> advances_by (fetch_aligned_f16 unpack) (\<lambda>_. 16) d
   \<and> advances_by (fetch_aligned_f32 unpack) (\<lambda>_. 32) d
   \<and> advances_by (fetch_aligned_f64 unpack) (\<lambda>_. 64) d
   \<and> advances_by (fetch_unaligned_f16 unpack) (\<lambda>_. 16) d
   \<and> advances_by (fetch_unaligned_f32 unpack) (\<lambda>_. 32) d
   \<and> advances_by (fetch_unaligned_f64 unpack) (\<lambda>_. 64) d
   \<and> reads_list (fetch_aligned_bytes count) count (8 * count) d
   \<and> reads_list (fetch_unaligned_bytes count) (max 0 count) (8 * max 0 count) d
   \<and> reads_list (fetch_aligned_array_of_bits count) count count d
   \<and> reads_list (fetch_unaligned_array_of_bits count) count count d
   \<and> reads_list (fetch_aligned_array_of_standard_bit_length_primitives itemsize count)
        count (8 * int itemsize * count) d
   \<and> reads_list (fetch_unaligned_array_of_standard_bit_length_primitives itemsize count)
        (max 0 count) (8 * int itemsize * max 0 count) d"
proof -
  note I = advances_byI
  have bit: "advances_by fetch_unaligned_bit (\<lambda>_. 1) d"
    by (rule I) (rule unaligned_bit_cursor)
  have u: "advances_by fetch_aligned_u8 (\<lambda>_. 8) d" "advances_by fetch_aligned_u16 (\<lambda>_. 16) d"
    "advances_by fetch_aligned_u32 (\<lambda>_. 32) d" "advances_by fetch_aligned_u64 (\<lambda>_. 64) d"
    by (rule I, erule u8_cursor u16_cursor u32_cursor u64_cursor)+
  have i: "advances_by fetch_aligned_i8 (\<lambda>_. 8) d" "advances_by fetch_aligned_i16 (\<lambda>_. 16) d"
    "advances_by fetch_aligned_i32 (\<lambda>_. 32) d" "advances_by fetch_aligned_i64 (\<lambda>_. 64) d"
    by (rule I, erule i8_cursor i16_cursor i32_cursor i64_cursor)+
  have n: "advances_by (fetch_aligned_unsigned bit_length) (\<lambda>_. bit_length) d"
    "advances_by (fetch_unaligned_unsigned bit_length) (\<lambda>_. bit_length) d"
    "advances_by (fetch_aligned_signed bit_length) (\<lambda>_. bit_length) d"
    "advances_by (fetch_unaligned_signed bit_length) (\<lambda>_. bit_length) d"
    by (rule I, erule aligned_unsigned_cursor unaligned_unsigned_cursor
                      aligned_signed_cursor unaligned_signed_cursor)+
  have f: "advances_by (fetch_aligned_f16 unpack) (\<lambda>_. 16) d"
    "advances_by (fetch_aligned_f32 unpack) (\<lambda>_. 32) d"
    "advances_by (fetch_aligned_f64 unpack) (\<lambda>_. 64) d"
    "advances_by (fetch_unaligned_f16 unpack) (\<lambda>_. 16) d"
    "advances_by (fetch_unaligned_f32 unpack) (\<lambda>_. 32) d"
    "advances_by (fetch_unaligned_f64 unpack) (\<lambda>_. 64) d"
    by (rule I, erule aligned_f_cursor unaligned_f_cursor)+
  have bytes: "reads_list (fetch_aligned_bytes count) count (8 * count) d"
    "reads_list (fetch_unaligned_bytes count) (max 0 count) (8 * max 0 count) d"
    by (rule reads_listI, drule aligned_bytes_cursor unaligned_bytes_cursor, simp)+
  have bits: "reads_list (fetch_aligned_array_of_bits count) count count d"
    "reads_list (fetch_unaligned_array_of_bits count) count count d"
    by (rule reads_listI, drule aligned_bits_cursor unaligned_bits_cursor, simp)+
  have arrays:
    "reads_list (fetch_aligned_array_of_standard_bit_length_primitives itemsize count)
        count (8 * int itemsize * count) d"
    "reads_list (fetch_unaligned_array_of_standard_bit_length_primitives itemsize count)
        (max 0 count) (8 * int itemsize * max 0 count) d"
    by (rule reads_listI, drule aligned_array_cursor unaligned_array_cursor, simp)+
  from bit u i n f bytes bits arrays show ?thesis
    by (intro conjI)
qed

text \<open>
  The first bytes of the sample of the unaligned unit test, read at several cursors: an
  integer of ten bits, ten bits as an array, two bytes, one primitive of two bytes, all
  unaligned, and a signed integer of nine bits and two primitives of two bytes, aligned.
  The last read asks for one byte less than nothing and gets nothing.
\<close>

theorem fetch_advances_cursor_witness:
  "fetch_unaligned_unsigned 10 (advance 11 (Deserializer_new [0xA3, 0xF4, 0xE8, 0x91]))
     = (Inr 423, advance 21 (Deserializer_new [0xA3, 0xF4, 0xE8, 0x91]))
   \<and> consumed_bit_length (advance 21 (Deserializer_new [0xA3, 0xF4, 0xE8, 0x91]))
     = consumed_bit_length (advance 11 (Deserializer_new [0xA3, 0xF4, 0xE8, 0x91])) + 10
   \<and> fetch_unaligned_array_of_bits 10 (advance 11 (Deserializer_new [0xA3, 0xF4, 0xE8, 0x91]))
     = (Inr [True, False, True, False, False, True, True, True, False, True],
        advance 21 (Deserializer_new [0xA3, 0xF4, 0xE8, 0x91]))
   \<and> int (length [True, False, True, False, False, True, True, True, False, True]) = 10
   \<and> fetch_unaligned_bytes 2 (advance 3 (Deserializer_new [0xA3, 0xF4, 0xE8, 0x91]))
     = (Inr [0x1F, 0xA7], advance 19 (Deserializer_new [0xA3, 0xF4, 0xE8, 0x91]))
   \<and> int (length [0x1F, 0xA7 :: byte]) = max 0 2
   \<and> consumed_bit_length (advance 19 (Deserializer_new [0xA3, 0xF4, 0xE8, 0x91]))
     = consumed_bit_length (advance 3 (Deserializer_new [0xA3, 0xF4, 0xE8, 0x91])) + 8 * max 0 2
   \<and> fetch_unaligned_array_of_standard_bit_length_primitives 2 1
        (advance 3 (Deserializer_new [0xA3, 0xF4, 0xE8, 0x91]))
     = (Inr [[0x1F, 0xA7]], advance 19 (Deserializer_new [0xA3, 0xF4, 0xE8, 0x91]))
   \<and> int (length [[0x1F, 0xA7 :: byte]]) = max 0 1
   \<and> fetch_aligned_signed 9 (Deserializer_new [0xA3, 0xF4, 0xE8, 0x91])
     = (Inr (- 93), advance 9 (Deserializer_new [0xA3, 0xF4, 0xE8, 0x91]))
   \<and> consumed_bit_length (advance 9 (Deserializer_new [0xA3, 0xF4, 0xE8, 0x91]))
     = consumed_bit_length (Deserializer_new [0xA3, 0xF4, 0xE8, 0x91]) + 9
   \<and> fetch_aligned_array_of_standard_bit_length_primitives 2 2
        (Deserializer_new [0xA3, 0xF4, 0xE8, 0x91])
     = (Inr [[0xA3, 0xF4], [0xE8, 0x91]], advance 32 (Deserializer_new [0xA3, 0xF4, 0xE8, 0x91]))
   \<and> int (length [[0xA3, 0xF4], [0xE8, 0x91 :: byte]]) = 2
   \<and> consumed_bit_length (advance 32 (Deserializer_new [0xA3, 0xF4, 0xE8, 0x91]))
     = consumed_bit_length (Deserializer_new [0xA3, 0xF4, 0xE8, 0x91]) + 8 * int 2 * 2
   \<and> fetch_unaligned_bytes (- 1) (advance 3 (Deserializer_new [0xA3, 0xF4, 0xE8, 0x91]))
     = (Inr [], advance 3 (Deserializer_new [0xA3, 0xF4, 0xE8, 0x91]))
   \<and> int (length ([] :: byte list)) = max 0 (- 1)"
proof -
  let ?d = "Deserializer_new [0xA3, 0xF4, 0xE8, 0x91]"
  have run1: "fetch_unaligned_unsigned 10 (advance 11 ?d) = (Inr 423, advance 21 ?d)"
    by code_simp
  have run2: "fetch_unaligned_array_of_bits 10 (advance 11 ?d)
                = (Inr [True, False, True, False, False, True, True, True, False, True],
                   advance 21 ?d)"
    by code_simp
  have run3: "fetch_unaligned_bytes 2 (advance 3 ?d) = (Inr [0x1F, 0xA7], advance 19 ?d)"
    by code_simp
  have run4: "fetch_aligned_signed 9 ?d = (Inr (- 93), advance 9 ?d)"
    by code_simp
  have run5: "fetch_unaligned_array_of_standard_bit_length_primitives 2 1 (advance 3 ?d)
                = (Inr [[0x1F, 0xA7]], advance 19 ?d)"
    by code_simp
  have run6: "fetch_aligned_array_of_standard_bit_length_primitives 2 2 ?d
                = (Inr [[0xA3, 0xF4], [0xE8, 0x91]], advance 32 ?d)"
    by code_simp
  have run7: "fetch_unaligned_bytes (- 1) (advance 3 ?d) = (Inr [], advance 3 ?d)"
    by code_simp
  from fetch_advances_cursor [of "advance 11 ?d" 10]
  have "advances_by (fetch_unaligned_unsigned 10) (\<lambda>_. 10) (advance 11 ?d)"
    by blast
  with run1 have c1: "consumed_bit_length (advance 21 ?d)
                        = consumed_bit_length (advance 11 ?d) + 10"
    by (simp add: advances_by_def)
  from fetch_advances_cursor [of "advance 11 ?d" _ _ 10]
  have "reads_list (fetch_unaligned_array_of_bits 10) 10 10 (advance 11 ?d)"
    by blast
  with run2 have c2:
    "int (length [True, False, True, False, False, True, True, True, False, True]) = 10"
    by (simp add: reads_list_def)
  from fetch_advances_cursor [of "advance 3 ?d" _ _ 2]
  have "reads_list (fetch_unaligned_bytes 2) (max 0 2) (8 * max 0 2) (advance 3 ?d)"
    by blast
  with run3 have c3: "int (length [0x1F, 0xA7 :: byte]) = max 0 2
      \<and> consumed_bit_length (advance 19 ?d) = consumed_bit_length (advance 3 ?d) + 8 * max 0 2"
    unfolding reads_list_def by simp
  from fetch_advances_cursor [of ?d 9]
  have "advances_by (fetch_aligned_signed 9) (\<lambda>_. 9) ?d"
    by blast
  with run4 have c4: "consumed_bit_length (advance 9 ?d) = consumed_bit_length ?d + 9"
    by (simp add: advances_by_def)
  from fetch_advances_cursor [of "advance 3 ?d" _ _ 1 2]
  have "reads_list (fetch_unaligned_array_of_standard_bit_length_primitives 2 1)
          (max 0 1) (8 * int 2 * max 0 1) (advance 3 ?d)"
    by blast
  with run5 have c5: "int (length [[0x1F, 0xA7 :: byte]]) = max 0 1"
    unfolding reads_list_def by simp
  from fetch_advances_cursor [of ?d _ _ 2 2]
  have "reads_list (fetch_aligned_array_of_standard_bit_length_primitives 2 2)
          2 (8 * int 2 * 2) ?d"
    by blast
  with run6 have c6: "int (length [[0xA3, 0xF4], [0xE8, 0x91 :: byte]]) = 2
      \<and> consumed_bit_length (advance 32 ?d) = consumed_bit_length ?d + 8 * int 2 * 2"
    unfolding reads_list_def by simp
  from fetch_advances_cursor [of "advance 3 ?d" _ _ "- 1"]
  have "reads_list (fetch_unaligned_bytes (- 1)) (max 0 (- 1)) (8 * max 0 (- 1)) (advance 3 ?d)"
    by blast
  with run7 have c7: "int (length ([] :: byte list)) = max 0 (- 1)"
    unfolding reads_list_def by simp
  from run1 c1 run2 c2 run3 c3 run4 c4 run5 c5 run6 c6 run7 c7 show ?thesis
    by (intro conjI) simp_all
qed

section \<open>Ranges of the integers read\<close>

lemma twos_complement_signed_take_bit:
  assumes "0 \<le> u" and "u < 2 ^ Suc m"
  shows "(if u \<ge> 2 ^ m then u - 2 ^ Suc m else u) = signed_take_bit m (u :: int)"
proof (cases "u \<ge> 2 ^ m")
  case False
  with assms(1) have "signed_take_bit m u = u"
    by (intro signed_take_bit_int_eq_self) simp_all
  with False show ?thesis by simp
next
  case True
  let ?w = "u - 2 ^ Suc m"
  from True assms(2) have "- (2 ^ m) \<le> ?w" "?w < 2 ^ m"
    by simp_all
  then have "signed_take_bit m ?w = ?w"
    by (rule signed_take_bit_int_eq_self)
  moreover have "take_bit (Suc m) ?w = take_bit (Suc m) u"
    by (simp add: take_bit_eq_mod)
  then have "signed_take_bit m ?w = signed_take_bit m u"
    by (simp only: signed_take_bit_eq_iff_take_bit_eq)
  ultimately show ?thesis using True by simp
qed

lemma twos_complement:
  assumes "0 \<le> u" and "u < 2 ^ n" and "1 \<le> n"
  shows "(if u \<ge> 2 ^ (n - 1) then u - 2 ^ n else u) = signed_take_bit (n - 1) (u :: int)"
proof -
  from assms(3) obtain m where n: "n = Suc m"
    by (cases n) simp_all
  from twos_complement_signed_take_bit [of u m] assms(1,2) show ?thesis
    unfolding n by simp
qed

lemma u8_range: "fetch_aligned_u8 d = (Inr v, d') \<Longrightarrow> 0 \<le> v \<and> v < 2 ^ 8"
  using uint_bounded [where 'a = 8]
  by (auto simp: fetch_aligned_u8_def split: if_splits sum.splits)

lemma or_push_bit_range:
  assumes "0 \<le> a" "a < 2 ^ m" "0 \<le> b" "b < 2 ^ m"
  shows "0 \<le> a OR push_bit m b \<and> a OR push_bit m (b :: int) < 2 ^ (m + m)"
proof -
  have "a OR push_bit m b = a + b * 2 ^ m"
    using or_push_bit_add [of a m b] assms by (simp only: push_bit_eq_mult)
  moreover have "b * 2 ^ m \<le> (2 ^ m - 1) * 2 ^ m"
    using assms by (simp add: mult_right_mono)
  moreover have "0 \<le> b * (2 :: int) ^ m"
    using assms by simp
  moreover have "(2 ^ m - 1) * (2 :: int) ^ m = 2 ^ (m + m) - 2 ^ m"
    by (simp add: algebra_simps power_add)
  ultimately show ?thesis
    using assms by linarith
qed

lemma u16_range: "fetch_aligned_u16 d = (Inr v, d') \<Longrightarrow> 0 \<le> v \<and> v < 2 ^ 16"
proof -
  assume "fetch_aligned_u16 d = (Inr v, d')"
  then obtain lo d1 hi where "fetch_aligned_u8 d = (Inr lo, d1)"
    "fetch_aligned_u8 d1 = (Inr hi, d')" "v = lo OR push_bit 8 hi"
    by (auto simp: fetch_aligned_u16_def run_simps)
  with u8_range [of d lo d1] u8_range [of d1 hi d'] or_push_bit_range [of lo 8 hi]
  show ?thesis by simp
qed

lemma u32_range: "fetch_aligned_u32 d = (Inr v, d') \<Longrightarrow> 0 \<le> v \<and> v < 2 ^ 32"
proof -
  assume "fetch_aligned_u32 d = (Inr v, d')"
  then obtain lo d1 hi where "fetch_aligned_u16 d = (Inr lo, d1)"
    "fetch_aligned_u16 d1 = (Inr hi, d')" "v = lo OR push_bit 16 hi"
    by (auto simp: fetch_aligned_u32_def run_simps)
  with u16_range [of d lo d1] u16_range [of d1 hi d'] or_push_bit_range [of lo 16 hi]
  show ?thesis by simp
qed

lemma u64_range: "fetch_aligned_u64 d = (Inr v, d') \<Longrightarrow> 0 \<le> v \<and> v < 2 ^ 64"
proof -
  assume "fetch_aligned_u64 d = (Inr v, d')"
  then obtain lo d1 hi where "fetch_aligned_u32 d = (Inr lo, d1)"
    "fetch_aligned_u32 d1 = (Inr hi, d')" "v = lo OR push_bit 32 hi"
    by (auto simp: fetch_aligned_u64_def run_simps)
  with u32_range [of d lo d1] u32_range [of d1 hi d'] or_push_bit_range [of lo 32 hi]
  show ?thesis by simp
qed

lemma aligned_unsigned_range:
  "fetch_aligned_unsigned n d = (Inr v, d') \<Longrightarrow> 0 \<le> v \<and> v < 2 ^ nat n"
  by (auto simp: fetch_aligned_unsigned_def Let_def split: if_splits
           dest: unsigned_from_bytes_range)

lemma unaligned_unsigned_range:
  "fetch_unaligned_unsigned n d = (Inr v, d') \<Longrightarrow> 0 \<le> v \<and> v < 2 ^ nat n"
  by (auto simp: fetch_unaligned_unsigned_def Let_def run_simps
           dest: unsigned_from_bytes_range)

lemma aligned_signed_twos_complement:
  assumes "fetch_aligned_signed n d = (Inr v, d')"
  shows "2 \<le> n \<and> (\<exists>u. fetch_aligned_unsigned n d = (Inr u, d')
                        \<and> v = signed_take_bit (nat n - 1) u)"
proof -
  from assms obtain u where n: "2 \<le> n" and u: "fetch_aligned_unsigned n d = (Inr u, d')"
    and v: "v = (if u \<ge> 2 ^ nat (n - 1) then u - 2 ^ nat n else u)"
    by (auto simp: fetch_aligned_signed_def run_simps)
  from n have m: "nat (n - 1) = nat n - 1" "1 \<le> nat n"
    by linarith+
  from aligned_unsigned_range [OF u] have "0 \<le> u" "u < 2 ^ nat n"
    by simp_all
  from twos_complement [OF this m(2)] v
  have "v = signed_take_bit (nat n - 1) u"
    unfolding m(1) by simp
  with n u show ?thesis by blast
qed

lemma unaligned_signed_twos_complement:
  assumes "fetch_unaligned_signed n d = (Inr v, d')"
  shows "2 \<le> n \<and> (\<exists>u. fetch_unaligned_unsigned n d = (Inr u, d')
                        \<and> v = signed_take_bit (nat n - 1) u)"
proof -
  from assms obtain u where n: "2 \<le> n" and u: "fetch_unaligned_unsigned n d = (Inr u, d')"
    and v: "v = (if u \<ge> 2 ^ nat (n - 1) then u - 2 ^ nat n else u)"
    by (auto simp: fetch_unaligned_signed_def run_simps)
  from n have m: "nat (n - 1) = nat n - 1" "1 \<le> nat n"
    by linarith+
  from unaligned_unsigned_range [OF u] have "0 \<le> u" "u < 2 ^ nat n"
    by simp_all
  from twos_complement [OF this m(2)] v
  have "v = signed_take_bit (nat n - 1) u"
    unfolding m(1) by simp
  with n u show ?thesis by blast
qed

lemma i8_twos_complement:
  assumes "fetch_aligned_i8 d = (Inr v, d')"
  shows "\<exists>u. fetch_aligned_u8 d = (Inr u, d') \<and> v = signed_take_bit 7 u"
proof -
  from assms obtain u where u: "fetch_aligned_u8 d = (Inr u, d')"
    and v: "v = (if u \<ge> 128 then u - 256 else u)"
    by (auto simp: fetch_aligned_i8_def run_simps)
  from u8_range [OF u] twos_complement [of u 8] v
  have "v = signed_take_bit 7 u" by (simp split: if_splits)
  with u show ?thesis by blast
qed

lemma i16_twos_complement:
  assumes "fetch_aligned_i16 d = (Inr v, d')"
  shows "\<exists>u. fetch_aligned_u16 d = (Inr u, d') \<and> v = signed_take_bit 15 u"
proof -
  from assms obtain u where u: "fetch_aligned_u16 d = (Inr u, d')"
    and v: "v = (if u \<ge> 32768 then u - 65536 else u)"
    by (auto simp: fetch_aligned_i16_def run_simps)
  from u16_range [OF u] twos_complement [of u 16] v
  have "v = signed_take_bit 15 u" by (simp split: if_splits)
  with u show ?thesis by blast
qed

lemma i32_twos_complement:
  assumes "fetch_aligned_i32 d = (Inr v, d')"
  shows "\<exists>u. fetch_aligned_u32 d = (Inr u, d') \<and> v = signed_take_bit 31 u"
proof -
  from assms obtain u where u: "fetch_aligned_u32 d = (Inr u, d')"
    and v: "v = (if u \<ge> 2 ^ 31 then u - 2 ^ 32 else u)"
    by (auto simp: fetch_aligned_i32_def run_simps)
  from u32_range [OF u] twos_complement [of u 32] v
  have "v = signed_take_bit 31 u" by simp
  with u show ?thesis by blast
qed

lemma i64_twos_complement:
  assumes "fetch_aligned_i64 d = (Inr v, d')"
  shows "\<exists>u. fetch_aligned_u64 d = (Inr u, d') \<and> v = signed_take_bit 63 u"
proof -
  from assms obtain u where u: "fetch_aligned_u64 d = (Inr u, d')"
    and v: "v = (if u \<ge> 2 ^ 63 then u - 2 ^ 64 else u)"
    by (auto simp: fetch_aligned_i64_def run_simps)
  from u64_range [OF u] twos_complement [of u 64] v
  have "v = signed_take_bit 63 u" by simp
  with u show ?thesis by blast
qed


lemma signed_take_bit_range:
  "- (2 ^ m) \<le> signed_take_bit m (u :: int) \<and> signed_take_bit m u < 2 ^ m"
  by (simp add: signed_take_bit_int_greater_eq_minus_exp signed_take_bit_int_less_exp)

text \<open>
  C10: an unsigned read of \<open>bit_length\<close> bits that returns, aligned or not, returns a
  value from 0 up to, not including, \<open>2 ^ bit_length\<close>. A signed read that returns was
  asked for at least two bits, returns a value from \<open>- 2 ^ (bit_length - 1)\<close> up to, not
  including, \<open>2 ^ (bit_length - 1)\<close>, and that value is what the unsigned read of the same
  bits at the same cursor returns, taken as a number in two's complement of \<open>bit_length\<close>
  bits: \<open>signed_take_bit (bit_length - 1)\<close> keeps the low \<open>bit_length - 1\<close> bits and gives
  bit \<open>bit_length - 1\<close> the weight \<open>- 2 ^ (bit_length - 1)\<close>. Both reads leave the same
  deserializer behind. The same holds of the reads of the standard widths 8, 16, 32
  and 64.
\<close>

theorem integer_fetch_ranges:
  "(\<forall>u d'. fetch_aligned_unsigned bit_length d = (Inr u, d')
         \<longrightarrow> 0 \<le> u \<and> u < 2 ^ nat bit_length)
   \<and> (\<forall>u d'. fetch_unaligned_unsigned bit_length d = (Inr u, d')
         \<longrightarrow> 0 \<le> u \<and> u < 2 ^ nat bit_length)
   \<and> (\<forall>v d'. fetch_aligned_signed bit_length d = (Inr v, d')
         \<longrightarrow> 2 \<le> bit_length
             \<and> - (2 ^ (nat bit_length - 1)) \<le> v \<and> v < 2 ^ (nat bit_length - 1)
             \<and> (\<exists>u. fetch_aligned_unsigned bit_length d = (Inr u, d')
                    \<and> v = signed_take_bit (nat bit_length - 1) u))
   \<and> (\<forall>v d'. fetch_unaligned_signed bit_length d = (Inr v, d')
         \<longrightarrow> 2 \<le> bit_length
             \<and> - (2 ^ (nat bit_length - 1)) \<le> v \<and> v < 2 ^ (nat bit_length - 1)
             \<and> (\<exists>u. fetch_unaligned_unsigned bit_length d = (Inr u, d')
                    \<and> v = signed_take_bit (nat bit_length - 1) u))
   \<and> (\<forall>u d'. fetch_aligned_u8 d = (Inr u, d') \<longrightarrow> 0 \<le> u \<and> u < 2 ^ 8)
   \<and> (\<forall>u d'. fetch_aligned_u16 d = (Inr u, d') \<longrightarrow> 0 \<le> u \<and> u < 2 ^ 16)
   \<and> (\<forall>u d'. fetch_aligned_u32 d = (Inr u, d') \<longrightarrow> 0 \<le> u \<and> u < 2 ^ 32)
   \<and> (\<forall>u d'. fetch_aligned_u64 d = (Inr u, d') \<longrightarrow> 0 \<le> u \<and> u < 2 ^ 64)
   \<and> (\<forall>v d'. fetch_aligned_i8 d = (Inr v, d')
         \<longrightarrow> - (2 ^ 7) \<le> v \<and> v < 2 ^ 7
             \<and> (\<exists>u. fetch_aligned_u8 d = (Inr u, d') \<and> v = signed_take_bit 7 u))
   \<and> (\<forall>v d'. fetch_aligned_i16 d = (Inr v, d')
         \<longrightarrow> - (2 ^ 15) \<le> v \<and> v < 2 ^ 15
             \<and> (\<exists>u. fetch_aligned_u16 d = (Inr u, d') \<and> v = signed_take_bit 15 u))
   \<and> (\<forall>v d'. fetch_aligned_i32 d = (Inr v, d')
         \<longrightarrow> - (2 ^ 31) \<le> v \<and> v < 2 ^ 31
             \<and> (\<exists>u. fetch_aligned_u32 d = (Inr u, d') \<and> v = signed_take_bit 31 u))
   \<and> (\<forall>v d'. fetch_aligned_i64 d = (Inr v, d')
         \<longrightarrow> - (2 ^ 63) \<le> v \<and> v < 2 ^ 63
             \<and> (\<exists>u. fetch_aligned_u64 d = (Inr u, d') \<and> v = signed_take_bit 63 u))"
proof -
  have unsigned:
    "\<forall>u d'. fetch_aligned_unsigned bit_length d = (Inr u, d')
         \<longrightarrow> 0 \<le> u \<and> u < 2 ^ nat bit_length"
    "\<forall>u d'. fetch_unaligned_unsigned bit_length d = (Inr u, d')
         \<longrightarrow> 0 \<le> u \<and> u < 2 ^ nat bit_length"
    using aligned_unsigned_range unaligned_unsigned_range by blast+
  have aligned_signed:
    "\<forall>v d'. fetch_aligned_signed bit_length d = (Inr v, d')
         \<longrightarrow> 2 \<le> bit_length
             \<and> - (2 ^ (nat bit_length - 1)) \<le> v \<and> v < 2 ^ (nat bit_length - 1)
             \<and> (\<exists>u. fetch_aligned_unsigned bit_length d = (Inr u, d')
                    \<and> v = signed_take_bit (nat bit_length - 1) u)"
  proof (intro allI impI)
    fix v d' assume "fetch_aligned_signed bit_length d = (Inr v, d')"
    from aligned_signed_twos_complement [OF this] obtain u where
      n: "2 \<le> bit_length" and u: "fetch_aligned_unsigned bit_length d = (Inr u, d')"
      and v: "v = signed_take_bit (nat bit_length - 1) u"
      by blast
    from v signed_take_bit_range [of "nat bit_length - 1" u]
    have "- (2 ^ (nat bit_length - 1)) \<le> v \<and> v < 2 ^ (nat bit_length - 1)"
      by simp
    with n u v show "2 \<le> bit_length
             \<and> - (2 ^ (nat bit_length - 1)) \<le> v \<and> v < 2 ^ (nat bit_length - 1)
             \<and> (\<exists>u. fetch_aligned_unsigned bit_length d = (Inr u, d')
                    \<and> v = signed_take_bit (nat bit_length - 1) u)"
      by blast
  qed
  have unaligned_signed:
    "\<forall>v d'. fetch_unaligned_signed bit_length d = (Inr v, d')
         \<longrightarrow> 2 \<le> bit_length
             \<and> - (2 ^ (nat bit_length - 1)) \<le> v \<and> v < 2 ^ (nat bit_length - 1)
             \<and> (\<exists>u. fetch_unaligned_unsigned bit_length d = (Inr u, d')
                    \<and> v = signed_take_bit (nat bit_length - 1) u)"
  proof (intro allI impI)
    fix v d' assume "fetch_unaligned_signed bit_length d = (Inr v, d')"
    from unaligned_signed_twos_complement [OF this] obtain u where
      n: "2 \<le> bit_length" and u: "fetch_unaligned_unsigned bit_length d = (Inr u, d')"
      and v: "v = signed_take_bit (nat bit_length - 1) u"
      by blast
    from v signed_take_bit_range [of "nat bit_length - 1" u]
    have "- (2 ^ (nat bit_length - 1)) \<le> v \<and> v < 2 ^ (nat bit_length - 1)"
      by simp
    with n u v show "2 \<le> bit_length
             \<and> - (2 ^ (nat bit_length - 1)) \<le> v \<and> v < 2 ^ (nat bit_length - 1)
             \<and> (\<exists>u. fetch_unaligned_unsigned bit_length d = (Inr u, d')
                    \<and> v = signed_take_bit (nat bit_length - 1) u)"
      by blast
  qed
  have standard_unsigned:
    "\<forall>u d'. fetch_aligned_u8 d = (Inr u, d') \<longrightarrow> 0 \<le> u \<and> u < 2 ^ 8"
    "\<forall>u d'. fetch_aligned_u16 d = (Inr u, d') \<longrightarrow> 0 \<le> u \<and> u < 2 ^ 16"
    "\<forall>u d'. fetch_aligned_u32 d = (Inr u, d') \<longrightarrow> 0 \<le> u \<and> u < 2 ^ 32"
    "\<forall>u d'. fetch_aligned_u64 d = (Inr u, d') \<longrightarrow> 0 \<le> u \<and> u < 2 ^ 64"
    using u8_range u16_range u32_range u64_range by blast+
  have i8: "\<forall>v d'. fetch_aligned_i8 d = (Inr v, d')
         \<longrightarrow> - (2 ^ 7) \<le> v \<and> v < 2 ^ 7
             \<and> (\<exists>u. fetch_aligned_u8 d = (Inr u, d') \<and> v = signed_take_bit 7 u)"
    using i8_twos_complement signed_take_bit_range [of 7] by blast
  have i16: "\<forall>v d'. fetch_aligned_i16 d = (Inr v, d')
         \<longrightarrow> - (2 ^ 15) \<le> v \<and> v < 2 ^ 15
             \<and> (\<exists>u. fetch_aligned_u16 d = (Inr u, d') \<and> v = signed_take_bit 15 u)"
    using i16_twos_complement signed_take_bit_range [of 15] by blast
  have i32: "\<forall>v d'. fetch_aligned_i32 d = (Inr v, d')
         \<longrightarrow> - (2 ^ 31) \<le> v \<and> v < 2 ^ 31
             \<and> (\<exists>u. fetch_aligned_u32 d = (Inr u, d') \<and> v = signed_take_bit 31 u)"
    using i32_twos_complement signed_take_bit_range [of 31] by blast
  have i64: "\<forall>v d'. fetch_aligned_i64 d = (Inr v, d')
         \<longrightarrow> - (2 ^ 63) \<le> v \<and> v < 2 ^ 63
             \<and> (\<exists>u. fetch_aligned_u64 d = (Inr u, d') \<and> v = signed_take_bit 63 u)"
    using i64_twos_complement signed_take_bit_range [of 63] by blast
  from unsigned aligned_signed unaligned_signed standard_unsigned i8 i16 i32 i64
  show ?thesis
    by (intro conjI)
qed

text \<open>
  Nine bits at the start of the sample \<open>A3 F4 E8 91\<close> read as a signed and as an
  unsigned integer, ten bits from bit 11 read as an unsigned one, and the first byte read
  as \<open>int8\<close>.
\<close>

theorem integer_fetch_ranges_witness:
  "fetch_aligned_signed 9 (Deserializer_new [0xA3, 0xF4, 0xE8, 0x91])
     = (Inr (- 93), advance 9 (Deserializer_new [0xA3, 0xF4, 0xE8, 0x91]))
   \<and> fetch_aligned_unsigned 9 (Deserializer_new [0xA3, 0xF4, 0xE8, 0x91])
     = (Inr 419, advance 9 (Deserializer_new [0xA3, 0xF4, 0xE8, 0x91]))
   \<and> (2 :: int) \<le> 9 \<and> - (2 ^ (nat 9 - 1)) \<le> (- 93 :: int) \<and> (- 93 :: int) < 2 ^ (nat 9 - 1)
   \<and> (- 93 :: int) = signed_take_bit (nat 9 - 1) 419
   \<and> fetch_unaligned_unsigned 10 (advance 11 (Deserializer_new [0xA3, 0xF4, 0xE8, 0x91]))
     = (Inr 423, advance 21 (Deserializer_new [0xA3, 0xF4, 0xE8, 0x91]))
   \<and> (0 :: int) \<le> 423 \<and> (423 :: int) < 2 ^ nat 10
   \<and> fetch_aligned_i8 (Deserializer_new [0xA3, 0xF4, 0xE8, 0x91])
     = (Inr (- 93), advance 8 (Deserializer_new [0xA3, 0xF4, 0xE8, 0x91]))
   \<and> - (2 ^ 7) \<le> (- 93 :: int) \<and> (- 93 :: int) < 2 ^ 7"
proof -
  let ?d = "Deserializer_new [0xA3, 0xF4, 0xE8, 0x91]"
  note ranges = integer_fetch_ranges [where bit_length = 9 and d = ?d]
  note ranges' = integer_fetch_ranges [where bit_length = 10 and d = "advance 11 ?d"]
  have signed: "fetch_aligned_signed 9 ?d = (Inr (- 93), advance 9 ?d)"
    by code_simp
  have unsigned: "fetch_aligned_unsigned 9 ?d = (Inr 419, advance 9 ?d)"
    by code_simp
  have unaligned: "fetch_unaligned_unsigned 10 (advance 11 ?d) = (Inr 423, advance 21 ?d)"
    by code_simp
  have i8: "fetch_aligned_i8 ?d = (Inr (- 93), advance 8 ?d)"
    by code_simp
  from ranges signed have
    "(2 :: int) \<le> 9 \<and> - (2 ^ (nat 9 - 1)) \<le> (- 93 :: int) \<and> (- 93 :: int) < 2 ^ (nat 9 - 1)
     \<and> (\<exists>u. fetch_aligned_unsigned 9 ?d = (Inr u, advance 9 ?d)
            \<and> (- 93 :: int) = signed_take_bit (nat 9 - 1) u)"
    by blast
  with unsigned have a:
    "(2 :: int) \<le> 9 \<and> - (2 ^ (nat 9 - 1)) \<le> (- 93 :: int) \<and> (- 93 :: int) < 2 ^ (nat 9 - 1)
     \<and> (- 93 :: int) = signed_take_bit (nat 9 - 1) 419"
    by auto
  from ranges' [THEN conjunct2, THEN conjunct1, rule_format, OF unaligned]
  have b: "(0 :: int) \<le> 423 \<and> (423 :: int) < 2 ^ nat 10" .
  from ranges i8 have c: "- (2 ^ 7) \<le> (- 93 :: int) \<and> (- 93 :: int) < 2 ^ 7"
    by blast
  from signed unsigned a unaligned b i8 c show ?thesis
    by blast
qed

section \<open>Service classes\<close>

text \<open>
  C5: both methods of a service class raise \<open>TypeError\<close>, the fault that stands for
  "not serializable" here, and leave the serializer and the deserializer as they were.
  \<open>TypeError\<close> is not \<open>FormatError\<close>, so \<open>deserialize\<close> on a service class does not
  answer \<open>None\<close>: the fault reaches the caller.
\<close>

theorem service_object_raises_TypeError:
  "serialize_aligned (ServiceObject model) self ser = (Inl TypeError, ser)
   \<and> deserialize_aligned (ServiceObject model') des = (Inl TypeError, des)
   \<and> TypeError \<noteq> FormatError
   \<and> deserialize info_enabled (ServiceObject model'') frags = Inl TypeError"
  by (simp add: ServiceObject_def ServiceObject_serialize_aligned_def
        ServiceObject_deserialize_aligned_def deserialize_def)

section \<open>Deserializing a composite object\<close>

lemma contiguous_concat: "contiguous frags = concat frags"
  by (cases frags; cases "tl frags") (auto simp: contiguous_def)

text \<open>
  C6: \<open>deserialize\<close> on a sequence of fragments gives what it gives on the one fragment
  that is their concatenation.
\<close>

theorem deserialize_fragments_joined:
  "deserialize info_enabled dtype frags = deserialize info_enabled dtype [concat frags]"
  by (simp add: deserialize_def contiguous_concat)

text \<open>
  C1: let \<open>dtype\<close> be a class whose \<open>_MODEL_\<close> is a composite type, as every generated
  class has it, or let the logger drop records of level INFO. Then \<open>deserialize\<close>
  returns \<open>None\<close> when \<open>_deserialize_aligned_\<close> raises \<open>FormatError\<close> on the deserializer
  of the joined fragments, raises \<open>e\<close> when that method raises any other \<open>e\<close>, and
  returns the object when it returns one.
\<close>

theorem deserialize_None_on_FormatError:
  assumes "info_enabled \<longrightarrow> (\<exists>model. MODEL dtype = CompositeType model)"
  shows "(fst (deserialize_aligned dtype (Deserializer_new (contiguous frags))) = Inl FormatError
            \<longrightarrow> deserialize info_enabled dtype frags = Inr None)
         \<and> (\<forall>e. fst (deserialize_aligned dtype (Deserializer_new (contiguous frags))) = Inl e
                  \<and> e \<noteq> FormatError
            \<longrightarrow> deserialize info_enabled dtype frags = Inl e)
         \<and> (\<forall>v. fst (deserialize_aligned dtype (Deserializer_new (contiguous frags))) = Inr v
            \<longrightarrow> deserialize info_enabled dtype frags = Inr (Some v))"
  using assms by (auto simp: deserialize_def get_model_def)

text \<open>
  A class of one \<open>uint8\<close> field checks the length and reads the byte: no fragment at all
  is invalid input and gives \<open>None\<close>, the byte 42 in two fragments gives 42. The same
  class without the check has a bug, which shows as \<open>IndexError\<close>.
\<close>

theorem deserialize_None_on_FormatError_witness:
  "deserialize True
     \<lparr>MODEL = CompositeType ''uint8'', MAX_SERIALIZED_REPRESENTATION_SIZE_BYTES = 1,
      serialize_aligned = (\<lambda>(self :: int) (ser :: unit). (Inr (), ser)),
      deserialize_aligned = and_then (require_remaining_bit_length 8) (\<lambda>_. fetch_aligned_u8)\<rparr>
     [] = Inr None
   \<and> deserialize True
     \<lparr>MODEL = CompositeType ''uint8'', MAX_SERIALIZED_REPRESENTATION_SIZE_BYTES = 1,
      serialize_aligned = (\<lambda>(self :: int) (ser :: unit). (Inr (), ser)),
      deserialize_aligned = and_then (require_remaining_bit_length 8) (\<lambda>_. fetch_aligned_u8)\<rparr>
     [[], [0x2A]] = Inr (Some 42)
   \<and> deserialize True
     \<lparr>MODEL = CompositeType ''uint8'', MAX_SERIALIZED_REPRESENTATION_SIZE_BYTES = 1,
      serialize_aligned = (\<lambda>(self :: int) (ser :: unit). (Inr (), ser)),
      deserialize_aligned = fetch_aligned_u8\<rparr>
     [] = Inl IndexError"
proof -
  let ?A = "\<lparr>MODEL = CompositeType ''uint8'', MAX_SERIALIZED_REPRESENTATION_SIZE_BYTES = 1,
      serialize_aligned = (\<lambda>(self :: int) (ser :: unit). (Inr (), ser)),
      deserialize_aligned = and_then (require_remaining_bit_length 8) (\<lambda>_. fetch_aligned_u8)\<rparr>"
  let ?B = "\<lparr>MODEL = CompositeType ''uint8'', MAX_SERIALIZED_REPRESENTATION_SIZE_BYTES = 1,
      serialize_aligned = (\<lambda>(self :: int) (ser :: unit). (Inr (), ser)),
      deserialize_aligned = fetch_aligned_u8\<rparr>"
  have A: "True \<longrightarrow> (\<exists>model. MODEL ?A = CompositeType model)"
    and B: "True \<longrightarrow> (\<exists>model. MODEL ?B = CompositeType model)"
    by simp_all
  have run1: "fst (deserialize_aligned ?A (Deserializer_new (contiguous []))) = Inl FormatError"
    by code_simp
  have run2: "fst (deserialize_aligned ?A (Deserializer_new (contiguous [[], [0x2A]]))) = Inr 42"
    by code_simp
  have run3: "fst (deserialize_aligned ?B (Deserializer_new (contiguous []))) = Inl IndexError"
    by code_simp
  from deserialize_None_on_FormatError [OF A, of "[]"] run1
  have r1: "deserialize True ?A [] = Inr None"
    by blast
  from deserialize_None_on_FormatError [OF A, of "[[], [0x2A]]"] run2
  have r2: "deserialize True ?A [[], [0x2A]] = Inr (Some 42)"
    by blast
  from deserialize_None_on_FormatError [OF B, of "[]"] run3
  have r3: "deserialize True ?B [] = Inl IndexError"
    by blast
  from r1 r2 r3 show ?thesis
    by (intro conjI)
qed

section \<open>Attributes by their DSDL names\<close>

text \<open>
  C8: \<open>get_attribute\<close> returns the attribute of that name when the object has it, else
  the attribute of that name followed by an underscore when the object has that, else
  raises \<open>AttributeError\<close>. \<open>set_attribute\<close> assigns to the name when the object has it,
  else to the name followed by an underscore when the object has that, else raises
  \<open>AttributeError\<close> and leaves the object as it was. In no case does the object gain an
  attribute.
\<close>

theorem get_set_attribute:
  "(obj name = Some v \<longrightarrow> get_attribute obj name = Inr v)
   \<and> (obj name = None \<and> obj (name @ ''_'') = Some v \<longrightarrow> get_attribute obj name = Inr v)
   \<and> (obj name = None \<and> obj (name @ ''_'') = None
        \<longrightarrow> get_attribute obj name = Inl AttributeError)
   \<and> (obj name \<noteq> None \<longrightarrow> set_attribute obj name w = (Inr (), obj(name \<mapsto> w)))
   \<and> (obj name = None \<and> obj (name @ ''_'') \<noteq> None
        \<longrightarrow> set_attribute obj name w = (Inr (), obj(name @ ''_'' \<mapsto> w)))
   \<and> (obj name = None \<and> obj (name @ ''_'') = None
        \<longrightarrow> set_attribute obj name w = (Inl AttributeError, obj))
   \<and> dom (snd (set_attribute obj name w)) = dom obj"
  by (auto simp: get_attribute_def set_attribute_def getattr_def hasattr_def setattr_def Let_def
           split: option.splits)

text \<open>
  An object with the attributes \<open>value\<close> and \<open>def_\<close>, the latter standing for the DSDL
  name \<open>def\<close>, and without \<open>type\<close> or \<open>type_\<close>.
\<close>

theorem get_set_attribute_witness:
  "get_attribute [''value'' \<mapsto> 1 :: int, ''def_'' \<mapsto> 2] ''value'' = Inr 1
   \<and> get_attribute [''value'' \<mapsto> 1 :: int, ''def_'' \<mapsto> 2] ''def'' = Inr 2
   \<and> get_attribute [''value'' \<mapsto> 1 :: int, ''def_'' \<mapsto> 2] ''type'' = Inl AttributeError
   \<and> set_attribute [''value'' \<mapsto> 1 :: int, ''def_'' \<mapsto> 2] ''value'' 7
       = (Inr (), [''value'' \<mapsto> 1, ''def_'' \<mapsto> 2, ''value'' \<mapsto> 7])
   \<and> set_attribute [''value'' \<mapsto> 1 :: int, ''def_'' \<mapsto> 2] ''def'' 7
       = (Inr (), [''value'' \<mapsto> 1, ''def_'' \<mapsto> 2, ''def_'' \<mapsto> 7])
   \<and> set_attribute [''value'' \<mapsto> 1 :: int, ''def_'' \<mapsto> 2] ''type'' 7
       = (Inl AttributeError, [''value'' \<mapsto> 1, ''def_'' \<mapsto> 2])"
proof -
  let ?obj = "[''value'' \<mapsto> 1 :: int, ''def_'' \<mapsto> 2]"
  have "?obj ''value'' = Some 1" "?obj ''value'' \<noteq> None"
    and "?obj ''def'' = None \<and> ?obj (''def'' @ ''_'') = Some 2"
      "?obj ''def'' = None \<and> ?obj (''def'' @ ''_'') \<noteq> None"
    and "?obj ''type'' = None \<and> ?obj (''type'' @ ''_'') = None"
    by simp_all
  with get_set_attribute [of ?obj "''value''" 1 7] get_set_attribute [of ?obj "''def''" 2 7]
    get_set_attribute [of ?obj "''type''" 0 7]
  show ?thesis
    by simp
qed

section \<open>The aligned read of an unsigned integer\<close>

lemma py_slice_inside:
  assumes "0 \<le> lo" and "0 \<le> n" and "lo + n \<le> int (length xs)"
  shows "py_slice xs lo (lo + n) = take (nat n) (drop (nat lo) xs)"
proof -
  from assms have "slice_bound (length xs) lo = nat lo"
    "slice_bound (length xs) (lo + n) = nat lo + nat n"
    by (auto simp: slice_bound_def)
  then show ?thesis
    by (simp add: py_slice_def)
qed

lemma reconstructed_take:
  assumes "1 \<le> n"
  shows "reconstructed (take n x) n k = reconstructed x n k"
  using assms by (simp add: reconstructed_def whole_bytes_def)

lemma aligned_room:
  assumes "wf d" and "bit_offset d mod 8 = 0" and "bit_length \<le> remaining_bit_length d"
  shows "0 \<le> byte_offset d"
    and "byte_offset d + (bit_length + 7) div 8 \<le> int (length (buf d))"
proof -
  define q where "q = bit_offset d div 8"
  from assms(2) have off: "bit_offset d = 8 * q"
    unfolding q_def by (simp add: mod_eq_0_iff_dvd)
  from assms(1) have w: "buf_bit_length d = int (length (buf d)) * 8" "0 \<le> bit_offset d"
    by (simp_all add: wf_def)
  from w(2) off show "0 \<le> byte_offset d"
    by (simp add: byte_offset_def)
  from assms(3) w(1) off have "bit_length \<le> 8 * (int (length (buf d)) - q)"
    by (simp add: remaining_bit_length_def)
  then have "bit_length + 7 \<le> 8 * (int (length (buf d)) - q) + 7"
    by simp
  then have "(bit_length + 7) div 8 \<le> (8 * (int (length (buf d)) - q) + 7) div 8"
    by (rule zdiv_mono1) simp
  also have "\<dots> = int (length (buf d)) - q"
    by (rule int_div_pos_eq [where r = 7]) simp_all
  finally show "byte_offset d + (bit_length + 7) div 8 \<le> int (length (buf d))"
    by (simp add: byte_offset_def q_def)
qed

text \<open>
  Read to the letter, the final byte would contribute its high \<open>bit_length mod 8\<close> bits,
  which is no bit at all when \<open>bit_length\<close> is a multiple of eight. The unit test of the
  aligned reads has such a read: sixteen bits from the bytes \<open>DA BE\<close> are \<open>0xBEDA\<close>,
  whereas whole first byte and no bit of the second give \<open>0xDA\<close>.
\<close>

theorem fetch_aligned_unsigned_mod_8_counterexample:
  "(1 :: int) \<le> 16
   \<and> bit_offset (Deserializer_new [0xDA, 0xBE]) mod 8 = 0
   \<and> 16 \<le> remaining_bit_length (Deserializer_new [0xDA, 0xBE])
   \<and> fetch_aligned_unsigned 16 (Deserializer_new [0xDA, 0xBE])
       = (Inr 0xBEDA, advance 16 (Deserializer_new [0xDA, 0xBE]))
   \<and> reconstructed
         (drop (nat (byte_offset (Deserializer_new [0xDA, 0xBE])))
            (buf (Deserializer_new [0xDA, 0xBE])))
         (nat ((16 + 7) div 8)) (nat (16 mod 8)) = 0xDA
   \<and> (0xBEDA :: int) \<noteq> 0xDA"
proof -
  let ?d = "Deserializer_new [0xDA, 0xBE]"
  have 1: "bit_offset ?d mod 8 = 0" and 2: "16 \<le> remaining_bit_length ?d"
    by (simp_all add: Deserializer_new_def remaining_bit_length_def)
  have 3: "fetch_aligned_unsigned 16 ?d = (Inr 0xBEDA, advance 16 ?d)"
    by code_simp
  have 4: "reconstructed (drop (nat (byte_offset ?d)) (buf ?d))
             (nat ((16 + 7) div 8)) (nat (16 mod 8)) = 0xDA"
    by code_simp
  from 1 2 3 4 show ?thesis
    by simp
qed

text \<open>
  C3, amended: let \<open>bit_length\<close> be at least 1, the cursor of a deserializer in a
  consistent state (\<open>wf\<close>) be on a byte boundary, and at least \<open>bit_length\<close> bits remain.
  Then the aligned read of an unsigned integer of \<open>bit_length\<close> bits returns, moves the
  cursor by \<open>bit_length\<close>, and its value is made of the \<open>ceil(bit_length / 8)\<close> bytes at the
  cursor: byte \<open>i\<close> of all but the last shifted left by \<open>8 * i\<close>, and of the last byte its
  high \<open>k\<close> bits, shifted right to justify and then left into place, where \<open>k\<close> is
  \<open>bit_length mod 8\<close>, or eight, the whole byte, when \<open>bit_length\<close> is a multiple of
  eight. The value is at least 0 and less than \<open>2 ^ bit_length\<close>.
\<close>

theorem fetch_aligned_unsigned_value:
  assumes "1 \<le> bit_length" and "bit_offset d mod 8 = 0" and "wf d"
    and "bit_length \<le> remaining_bit_length d"
  shows "fetch_aligned_unsigned bit_length d =
           (Inr (reconstructed (drop (nat (byte_offset d)) (buf d))
                   (nat ((bit_length + 7) div 8)) (final_byte_bits bit_length)),
            advance bit_length d)
         \<and> 0 \<le> reconstructed (drop (nat (byte_offset d)) (buf d))
                   (nat ((bit_length + 7) div 8)) (final_byte_bits bit_length)
         \<and> reconstructed (drop (nat (byte_offset d)) (buf d))
                   (nat ((bit_length + 7) div 8)) (final_byte_bits bit_length) < 2 ^ nat bit_length"
proof -
  define n where "n = (bit_length + 7) div 8"
  let ?x = "drop (nat (byte_offset d)) (buf d)"
  let ?bs = "take (nat n) ?x"
  let ?k = "final_byte_bits bit_length"
  note split = byte_count_split [OF assms(1), folded n_def]
  note room = aligned_room [OF assms(3,2,4), folded n_def]
  from split(1) have n: "0 \<le> n" "1 \<le> nat n"
    by linarith+
  from room n(1) have slice: "py_slice (buf d) (byte_offset d) (byte_offset d + n) = ?bs"
    by (intro py_slice_inside)
  from room n(1) have len: "int (length ?bs) = n"
    by simp
  from split(2,3) n assms(1) have "bit_length \<le> n * 8"
    by linarith
  with len have enough: "\<not> int (length ?bs) * 8 < bit_length"
    by simp
  from len have "(bit_length + 7) div 8 \<le> int (length ?bs)"
    by (simp add: n_def)
  from unsigned_from_bytes_value [OF assms(1) this]
  have "unsigned_from_bytes ?bs bit_length = Inr (reconstructed ?bs (nat n) ?k)"
    by (simp only: n_def)
  also have "reconstructed ?bs (nat n) ?k = reconstructed ?x (nat n) ?k"
    using n(2) by (rule reconstructed_take)
  finally have res: "unsigned_from_bytes ?bs bit_length = Inr (reconstructed ?x (nat n) ?k)" .
  have "fetch_aligned_unsigned bit_length d =
          (unsigned_from_bytes ?bs bit_length, advance bit_length d)"
    unfolding fetch_aligned_unsigned_def Let_def n_def [symmetric] slice
    using assms(2) enough by simp
  with res have fetch: "fetch_aligned_unsigned bit_length d =
           (Inr (reconstructed ?x (nat n) ?k), advance bit_length d)"
    by simp
  from reconstructed_range [OF split(3), of ?x "nat n"] split(2)
  have "0 \<le> reconstructed ?x (nat n) ?k \<and> reconstructed ?x (nat n) ?k < 2 ^ nat bit_length"
    by simp
  with fetch show ?thesis
    unfolding n_def by simp
qed

text \<open>
  Eleven bits from the second byte of the sample \<open>A3 F4 E8 91\<close>: the byte \<open>F4\<close> and the
  high three bits of \<open>E8\<close>. Sixteen bits from \<open>DA BE\<close>: both bytes whole.
\<close>

theorem fetch_aligned_unsigned_value_witness:
  "(1 :: int) \<le> 11
   \<and> bit_offset (advance 8 (Deserializer_new [0xA3, 0xF4, 0xE8, 0x91])) mod 8 = 0
   \<and> wf (advance 8 (Deserializer_new [0xA3, 0xF4, 0xE8, 0x91]))
   \<and> 11 \<le> remaining_bit_length (advance 8 (Deserializer_new [0xA3, 0xF4, 0xE8, 0x91]))
   \<and> fetch_aligned_unsigned 11 (advance 8 (Deserializer_new [0xA3, 0xF4, 0xE8, 0x91]))
       = (Inr (reconstructed [0xF4, 0xE8, 0x91] 2 3),
          advance 11 (advance 8 (Deserializer_new [0xA3, 0xF4, 0xE8, 0x91])))
   \<and> reconstructed [0xF4, 0xE8, 0x91] 2 3 = 0xF4 + push_bit 8 7
   \<and> reconstructed [0xF4, 0xE8, 0x91] 2 3 < 2 ^ nat 11
   \<and> fetch_aligned_unsigned 16 (Deserializer_new [0xDA, 0xBE])
       = (Inr (reconstructed [0xDA, 0xBE] 2 8), advance 16 (Deserializer_new [0xDA, 0xBE]))
   \<and> reconstructed [0xDA, 0xBE] 2 8 = 0xBEDA"
proof -
  let ?d = "advance 8 (Deserializer_new [0xA3, 0xF4, 0xE8, 0x91])"
  let ?e = "Deserializer_new [0xDA, 0xBE]"
  have d: "(1 :: int) \<le> 11" "bit_offset ?d mod 8 = 0" "wf ?d" "11 \<le> remaining_bit_length ?d"
    by (simp_all add: wf_def advance_def Deserializer_new_def remaining_bit_length_def)
  have e: "(1 :: int) \<le> 16" "bit_offset ?e mod 8 = 0" "wf ?e" "16 \<le> remaining_bit_length ?e"
    by (simp_all add: wf_def advance_def Deserializer_new_def remaining_bit_length_def)
  have bytes: "drop (nat (byte_offset ?d)) (buf ?d) = [0xF4, 0xE8, 0x91]"
    "drop (nat (byte_offset ?e)) (buf ?e) = [0xDA, 0xBE]"
    by code_simp+
  have sizes: "nat (((11 :: int) + 7) div 8) = 2" "final_byte_bits 11 = 3"
    "nat (((16 :: int) + 7) div 8) = 2" "final_byte_bits 16 = 8"
    by (simp_all add: final_byte_bits_def)
  have vals: "reconstructed [0xF4, 0xE8, 0x91] 2 3 = 0xF4 + push_bit 8 7"
    "reconstructed [0xDA, 0xBE] 2 8 = 0xBEDA"
    by code_simp+
  from fetch_aligned_unsigned_value [OF d] have 1:
    "fetch_aligned_unsigned 11 ?d = (Inr (reconstructed [0xF4, 0xE8, 0x91] 2 3), advance 11 ?d)"
    "reconstructed [0xF4, 0xE8, 0x91] 2 3 < 2 ^ nat 11"
    unfolding bytes sizes by blast+
  from fetch_aligned_unsigned_value [OF e] have 2:
    "fetch_aligned_unsigned 16 ?e = (Inr (reconstructed [0xDA, 0xBE] 2 8), advance 16 ?e)"
    unfolding bytes sizes by blast
  from d 1 2 vals show ?thesis
    by (intro conjI)
qed

section \<open>The unaligned read of bytes at the end of the buffer\<close>

lemma byte_offset_advance_8:
  "byte_offset (advance (8 * m) d) = byte_offset d + m"
  by (simp add: byte_offset_def advance_def)

lemma advance_advance: "advance m (advance n d) = advance (n + m) d"
  by (simp add: advance_def add.assoc)

lemma py_index_inside:
  "0 \<le> i \<Longrightarrow> i < int (length xs) \<Longrightarrow> py_index xs i = Inr (xs ! nat i)"
  by (simp add: py_index_def)

lemma py_index_beyond:
  "int (length xs) \<le> i \<Longrightarrow> py_index xs i = Inl IndexError"
  by (simp add: py_index_def)

lemma unaligned_loop_result:
  assumes "0 \<le> byte_offset d" and "byte_offset d + int k < int (length (buf d))"
    and "i + k \<le> length out"
  shows "\<exists>out'. unaligned_loop k i left (8 - left) out d = (Inr out', advance (8 * int k) d)
           \<and> length out' = length out
           \<and> (\<forall>j < i. out' ! j = out ! j)
           \<and> (\<forall>j < k. out' ! (i + j) = shifted_byte (buf d) left (nat (byte_offset d) + j))"
  using assms
proof (induction k arbitrary: i out d)
  case 0
  then show ?case by (simp add: advance_def)
next
  case (Suc k)
  let ?bo = "byte_offset d"
  let ?v = "push_bit left (buf d ! nat ?bo) OR drop_bit (8 - left) (buf d ! nat (?bo + 1))"
  let ?d = "advance 8 d"
  from Suc.prems have a: "py_index (buf d) ?bo = Inr (buf d ! nat ?bo)"
    and b: "py_index (buf d) (?bo + 1) = Inr (buf d ! nat (?bo + 1))"
    by (simp_all add: py_index_inside)
  have bo: "byte_offset ?d = ?bo + 1"
    using byte_offset_advance_8 [of 1 d] by simp
  from Suc.prems bo have p: "0 \<le> byte_offset ?d"
    "byte_offset ?d + int k < int (length (buf ?d))"
    "Suc i + k \<le> length (out[i := ?v])"
    by (simp_all add: buf_advance)
  from Suc.IH [OF p] obtain out' where
    run: "unaligned_loop k (Suc i) left (8 - left) (out[i := ?v]) ?d
            = (Inr out', advance (8 * int k) ?d)" and
    len: "length out' = length (out[i := ?v])" and
    low: "\<forall>j < Suc i. out' ! j = out[i := ?v] ! j" and
    new: "\<forall>j < k. out' ! (Suc i + j) = shifted_byte (buf ?d) left (nat (byte_offset ?d) + j)"
    by blast
  from Suc.prems(1) have nbo: "nat (?bo + 1) = Suc (nat ?bo)"
    by linarith
  from Suc.prems have inside: "Suc (nat ?bo) < length (buf d)" "i < length out"
    by linarith+
  then have v: "?v = shifted_byte (buf d) left (nat ?bo)"
    by (simp add: shifted_byte_def nbo)
  have 1: "unaligned_loop (Suc k) i left (8 - left) out d
             = (Inr out', advance (8 * int (Suc k)) d)"
    using a b run by (simp add: advance_advance algebra_simps)
  have 2: "length out' = length out"
    using len by simp
  have 3: "\<forall>j < i. out' ! j = out ! j"
    using low by (auto simp: nth_list_update)
  have 4: "\<forall>j < Suc k. out' ! (i + j) = shifted_byte (buf d) left (nat ?bo + j)"
  proof (intro allI impI)
    fix j assume j: "j < Suc k"
    show "out' ! (i + j) = shifted_byte (buf d) left (nat ?bo + j)"
    proof (cases j)
      case 0
      with low inside(2) v show ?thesis
        by simp
    next
      case (Suc j')
      with j new have "out' ! (Suc i + j') = shifted_byte (buf ?d) left (nat (byte_offset ?d) + j')"
        by simp
      with Suc show ?thesis
        by (simp add: bo nbo buf_advance)
    qed
  qed
  from 1 2 3 4 show ?case
    by blast
qed

lemma unaligned_room:
  assumes "wf d" and "1 \<le> bits" and "bits \<le> remaining_bit_length d"
  shows "0 \<le> byte_offset d" and "1 \<le> (bits + 7) div 8"
    and "bit_offset d mod 8 \<noteq> 0 \<Longrightarrow>
           byte_offset d + (bits + 7) div 8 \<le> int (length (buf d))"
proof -
  define bo l where "bo = bit_offset d div 8" and "l = bit_offset d mod 8"
  define c r where "c = (bits + 7) div 8" and "r = (bits + 7) mod 8"
  have off: "bit_offset d = 8 * bo + l" and l: "0 \<le> l" "l < 8"
    unfolding bo_def l_def by simp_all
  have bits: "bits + 7 = 8 * c + r" and r: "0 \<le> r" "r < 8"
    unfolding c_def r_def by simp_all
  from assms(1) have w: "buf_bit_length d = int (length (buf d)) * 8" "0 \<le> bit_offset d"
    by (simp_all add: wf_def)
  from w(2) off l have "0 \<le> bo"
    by linarith
  then show "0 \<le> byte_offset d"
    by (simp add: byte_offset_def bo_def)
  from assms(2) bits r have "1 \<le> c"
    by linarith
  then show "1 \<le> (bits + 7) div 8"
    by (simp add: c_def)
  assume "bit_offset d mod 8 \<noteq> 0"
  with l have "1 \<le> l"
    by (simp add: l_def)
  with assms(3) w(1) off bits r have "bo + c \<le> int (length (buf d))"
    unfolding remaining_bit_length_def by linarith
  then show "byte_offset d + (bits + 7) div 8 \<le> int (length (buf d))"
    by (simp add: byte_offset_def bo_def c_def)
qed

text \<open>
  C2: let the cursor of a deserializer in a consistent state (\<open>wf\<close>) be off the byte
  boundary, and let the caller want \<open>bits\<close> bits, at least one and no more than remain.
  Then the unaligned read of the \<open>ceil(bits / 8)\<close> bytes that hold them returns that many
  bytes and raises nothing; output byte \<open>i\<close> is the buffer byte \<open>i\<close> places after the
  cursor's, shifted left, joined with the high bits of the next buffer byte if there is
  one. When the last byte read is the last of the buffer, so that the byte after it is
  absent, the last output byte is that buffer byte shifted left, and its low bits, as many
  as the cursor is into its byte, are zero.
\<close>

theorem fetch_unaligned_bytes_at_stream_end:
  assumes "wf d" and "bit_offset d mod 8 \<noteq> 0"
    and "1 \<le> bits" and "bits \<le> remaining_bit_length d"
  shows "\<exists>out. fetch_unaligned_bytes ((bits + 7) div 8) d
                  = (Inr out, advance (8 * ((bits + 7) div 8)) d)
           \<and> int (length out) = (bits + 7) div 8
           \<and> (\<forall>i < length out.
                 out ! i = shifted_byte (buf d) (nat (bit_offset d mod 8)) (nat (byte_offset d) + i))
           \<and> (byte_offset d + (bits + 7) div 8 = int (length (buf d)) \<longrightarrow>
                 last out = push_bit (nat (bit_offset d mod 8)) (last (buf d))
                 \<and> take_bit (nat (bit_offset d mod 8)) (last out) = 0)"
proof -
  define count where "count = (bits + 7) div 8"
  define left where "left = nat (bit_offset d mod 8)"
  define bo where "bo = nat (byte_offset d)"
  let ?sb = "shifted_byte (buf d) left"
  let ?out0 = "replicate (nat count) (0 :: byte)"
  note room = unaligned_room [OF assms(1,3,4), folded count_def]
  from room(1) have bo: "byte_offset d = int bo"
    by (simp add: bo_def)
  from room(2) have count: "0 < count" "nat (count - 1) = nat count - 1" "1 \<le> nat count"
    by linarith+
  from room(3) [OF assms(2)] bo have fits: "int bo + count \<le> int (length (buf d))"
    by simp
  with count(1) have "byte_offset d + int (nat (count - 1)) < int (length (buf d))"
    using bo by linarith
  moreover have "0 + nat (count - 1) \<le> length ?out0"
    by simp
  ultimately obtain out1 where
    loop: "unaligned_loop (nat (count - 1)) 0 left (8 - left) ?out0 d
             = (Inr out1, advance (8 * int (nat (count - 1))) d)" and
    len1: "length out1 = length ?out0" and
    new: "\<forall>j < nat (count - 1). out1 ! (0 + j) = ?sb (nat (byte_offset d) + j)"
    using unaligned_loop_result [OF room(1), of "nat (count - 1)" 0 ?out0 left]
    by blast
  define d1 where "d1 = advance (8 * int (nat (count - 1))) d"
  define d2 where "d2 = advance 8 d1"
  let ?last = "bo + (nat count - 1)"
  from count(1) have c1: "int (nat (count - 1)) = count - 1"
    by simp
  have "byte_offset d1 = byte_offset d + int (nat (count - 1))"
    unfolding d1_def by (rule byte_offset_advance_8)
  then have bo1: "byte_offset d1 = int bo + count - 1"
    unfolding bo c1 by simp
  have buf1: "buf d1 = buf d" and buf2: "buf d2 = buf d"
    by (simp_all add: d1_def d2_def buf_advance)
  have d2: "d2 = advance (8 * count) d"
    unfolding d2_def d1_def advance_advance c1 by (simp add: algebra_simps)
  then have bo2: "byte_offset d2 = int bo + count"
    by (simp add: byte_offset_advance_8 bo)
  from count(1) have nlast: "nat (int bo + count - 1) = ?last" "nat (int bo + count) = Suc ?last"
    by linarith+
  from fits count(1) have "py_index (buf d) (int bo + count - 1) = Inr (buf d ! ?last)"
    by (simp add: py_index_inside nlast)
  then have a: "py_index (buf d1) (byte_offset d1) = Inr (buf d ! ?last)"
    by (simp only: bo1 buf1)
  have lb: "last_byte left (8 - left) d2 (buf d ! ?last) = ?sb ?last"
  proof (cases "int bo + count < int (length (buf d))")
    case True
    with count(1) have "py_index (buf d) (int bo + count) = Inr (buf d ! nat (int bo + count))"
      by (intro py_index_inside) simp_all
    then have "py_index (buf d) (int bo + count) = Inr (buf d ! Suc ?last)"
      unfolding nlast .
    moreover from True count(1) have "Suc ?last < length (buf d)"
      by linarith
    ultimately show ?thesis
      by (simp add: last_byte_def bo2 buf2 shifted_byte_def)
  next
    case False
    then have "py_index (buf d) (int bo + count) = Inl IndexError"
      by (simp add: py_index_beyond)
    moreover from False count(1) have "\<not> Suc ?last < length (buf d)"
      by linarith
    ultimately show ?thesis
      by (simp add: last_byte_def bo2 buf2 shifted_byte_def)
  qed
  let ?out = "out1[nat count - 1 := ?sb ?last]"
  from len1 count(1) have len: "int (length out1) = count"
    by simp
  have fetch: "fetch_unaligned_bytes count d = (Inr ?out, advance (8 * count) d)"
    unfolding fetch_unaligned_bytes_unaligned [OF count(1) assms(2)] left_def [symmetric]
      loop d1_def [symmetric]
    using a len lb d2 by (simp add: count(2) d2_def [symmetric])
  have nth: "\<forall>i < length ?out. ?out ! i = ?sb (bo + i)"
  proof (intro allI impI)
    fix i assume "i < length ?out"
    with len have i: "i < nat count"
      by simp
    show "?out ! i = ?sb (bo + i)"
    proof (cases "i = nat count - 1")
      case True
      with i len1 show ?thesis by simp
    next
      case False
      with i count(2) have "i < nat (count - 1)"
        by linarith
      with new False show ?thesis
        by (simp add: bo_def)
    qed
  qed
  have absent: "last ?out = push_bit left (last (buf d))
                \<and> take_bit left (last ?out) = 0"
    if "int bo + count = int (length (buf d))"
  proof -
    from that count(1) have eq: "?last = length (buf d) - 1" "buf d \<noteq> []"
      "\<not> Suc ?last < length (buf d)"
      by (linarith, auto)
    from len count(3) have "?out \<noteq> []" "length ?out - 1 = nat count - 1" "nat count - 1 < length out1"
      by auto
    then have "last ?out = ?sb ?last"
      by (simp add: last_conv_nth)
    also have "\<dots> = push_bit left (last (buf d))"
      using eq by (simp add: shifted_byte_def last_conv_nth)
    finally show ?thesis
      by (simp add: take_bit_push_bit)
  qed
  from absent have absent':
    "byte_offset d + count = int (length (buf d)) \<longrightarrow>
       last ?out = push_bit left (last (buf d)) \<and> take_bit left (last ?out) = 0"
    unfolding bo by blast
  from len have len': "int (length ?out) = count"
    by simp
  from fetch len' nth absent' have
    "\<exists>out. fetch_unaligned_bytes count d = (Inr out, advance (8 * count) d)
           \<and> int (length out) = count
           \<and> (\<forall>i < length out. out ! i = shifted_byte (buf d) left (bo + i))
           \<and> (byte_offset d + count = int (length (buf d)) \<longrightarrow>
                 last out = push_bit left (last (buf d)) \<and> take_bit left (last out) = 0)"
    by blast
  then show ?thesis
    unfolding count_def left_def bo_def .
qed

text \<open>
  Thirteen bits remain after bit 19 of the sample \<open>A3 F4 E8 91\<close>; reading them takes two
  bytes, the second of which would need a fifth byte of the buffer.
\<close>

theorem fetch_unaligned_bytes_at_stream_end_witness:
  "wf (advance 19 (Deserializer_new [0xA3, 0xF4, 0xE8, 0x91]))
   \<and> bit_offset (advance 19 (Deserializer_new [0xA3, 0xF4, 0xE8, 0x91])) mod 8 = 3
   \<and> (1 :: int) \<le> 13
   \<and> 13 \<le> remaining_bit_length (advance 19 (Deserializer_new [0xA3, 0xF4, 0xE8, 0x91]))
   \<and> byte_offset (advance 19 (Deserializer_new [0xA3, 0xF4, 0xE8, 0x91])) + (13 + 7) div 8
       = int (length (buf (advance 19 (Deserializer_new [0xA3, 0xF4, 0xE8, 0x91]))))
   \<and> fetch_unaligned_bytes ((13 + 7) div 8)
         (advance 19 (Deserializer_new [0xA3, 0xF4, 0xE8, 0x91]))
       = (Inr [0x44, 0x88],
          advance (8 * ((13 + 7) div 8)) (advance 19 (Deserializer_new [0xA3, 0xF4, 0xE8, 0x91])))
   \<and> last [0x44, 0x88 :: byte] = push_bit 3 (0x91 :: byte)
   \<and> take_bit 3 (last [0x44, 0x88 :: byte]) = 0"
proof -
  let ?d = "advance 19 (Deserializer_new [0xA3, 0xF4, 0xE8, 0x91])"
  have h: "wf ?d" "bit_offset ?d mod 8 \<noteq> 0" "(1 :: int) \<le> 13" "13 \<le> remaining_bit_length ?d"
    and left: "bit_offset ?d mod 8 = 3"
    and at_end: "byte_offset ?d + (13 + 7) div 8 = int (length (buf ?d))"
    and final: "last (buf ?d) = 0x91"
    by (simp_all add: wf_def advance_def Deserializer_new_def remaining_bit_length_def
          byte_offset_def)
  have run: "fetch_unaligned_bytes ((13 + 7) div 8) ?d
               = (Inr [0x44, 0x88], advance (8 * ((13 + 7) div 8)) ?d)"
    by code_simp
  from fetch_unaligned_bytes_at_stream_end [OF h] obtain out where
    "fetch_unaligned_bytes ((13 + 7) div 8) ?d = (Inr out, advance (8 * ((13 + 7) div 8)) ?d)"
    and absent: "byte_offset ?d + (13 + 7) div 8 = int (length (buf ?d)) \<longrightarrow>
           last out = push_bit (nat (bit_offset ?d mod 8)) (last (buf ?d))
           \<and> take_bit (nat (bit_offset ?d mod 8)) (last out) = 0"
    by blast
  with run have out: "out = [0x44, 0x88]"
    by simp
  from absent at_end have "last out = push_bit (nat (bit_offset ?d mod 8)) (last (buf ?d))
           \<and> take_bit (nat (bit_offset ?d mod 8)) (last out) = 0"
    by blast
  then have "last [0x44, 0x88 :: byte] = push_bit 3 (0x91 :: byte)
             \<and> take_bit 3 (last [0x44, 0x88 :: byte]) = 0"
    unfolding out left final by simp
  with h(1,3,4) left at_end run show ?thesis
    by (intro conjI) simp_all
qed

end
